theory Spec2Isabelle
  imports Complex_Main "HOL-Library.AList"
begin

section \<open>video\_processor.py: the frame buffer and the progress property\<close>

text \<open>
  \<^verbatim>\<open>FrameBuffer\<close> wraps a \<^verbatim>\<open>queue.Queue(maxsize=max_size)\<close>. The queue is a FIFO list; the
  two events are booleans. The frames themselves are opaque, so the record is polymorphic
  in them. Each call of \<^verbatim>\<open>put\<close> and \<^verbatim>\<open>get\<close> runs under the queue's own mutex, so a history
  of calls from the two threads is a sequence of such calls.
\<close>

record 'f FrameBuffer =
  maxsize :: int
  buffer :: "'f list"
  stop_event :: bool
  processing_done :: bool

definition FrameBuffer_init :: "int \<Rightarrow> 'f FrameBuffer" where
  "FrameBuffer_init max_size =
     \<lparr>maxsize = max_size, buffer = [], stop_event = False, processing_done = False\<rparr>"

text \<open>
  \<^verbatim>\<open>Queue.put(frame, block=False)\<close> raises \<^verbatim>\<open>queue.Full\<close> at once when \<^verbatim>\<open>maxsize > 0\<close> and
  \<^verbatim>\<open>qsize() >= maxsize\<close>; a \<^verbatim>\<open>maxsize\<close> of zero or less makes the queue unbounded.
  \<^verbatim>\<open>FrameBuffer.put\<close> turns the exception into \<^verbatim>\<open>False\<close>.
\<close>

definition put :: "'f FrameBuffer \<Rightarrow> 'f \<Rightarrow> 'f FrameBuffer \<times> bool" where
  "put b frame =
     (if 0 < maxsize b \<and> maxsize b \<le> int (length (buffer b))
      then (b, False)
      else (b\<lparr>buffer := buffer b @ [frame]\<rparr>, True))"

text \<open>
  \<^verbatim>\<open>Queue.get(block=False)\<close> raises \<^verbatim>\<open>queue.Empty\<close> at once on an empty queue;
  \<^verbatim>\<open>FrameBuffer.get\<close> turns the exception into \<^verbatim>\<open>None\<close>.
\<close>

definition get :: "'f FrameBuffer \<Rightarrow> 'f FrameBuffer \<times> 'f option" where
  "get b =
     (case buffer b of
        [] \<Rightarrow> (b, None)
      | frame # rest \<Rightarrow> (b\<lparr>buffer := rest\<rparr>, Some frame))"

definition clear :: "'f FrameBuffer \<Rightarrow> 'f FrameBuffer" where
  "clear b = b\<lparr>buffer := []\<rparr>"

definition stop :: "'f FrameBuffer \<Rightarrow> 'f FrameBuffer" where
  "stop b = b\<lparr>stop_event := True\<rparr>"

text \<open>A history of calls on one buffer, and the buffer it leaves.\<close>

datatype 'f fb_call = Put 'f | Get | Clear | Stop

fun fb_step :: "'f FrameBuffer \<Rightarrow> 'f fb_call \<Rightarrow> 'f FrameBuffer" where
  "fb_step b (Put frame) = fst (put b frame)"
| "fb_step b Get = fst (get b)"
| "fb_step b Clear = clear b"
| "fb_step b Stop = stop b"

fun fb_run :: "'f FrameBuffer \<Rightarrow> 'f fb_call list \<Rightarrow> 'f FrameBuffer" where
  "fb_run b [] = b"
| "fb_run b (c # cs) = fb_run (fb_step b c) cs"

text \<open>
  \<^verbatim>\<open>VideoProcessor\<close>: the fields the \<^verbatim>\<open>progress\<close> property reads, and the frame skip.
  \<^verbatim>\<open>current_frame_no / total_frames\<close> is Python's true division of two ints.
\<close>

record VideoProcessor =
  frame_skip :: int
  current_frame_no :: int
  total_frames :: int

definition VideoProcessor_init :: "int \<Rightarrow> VideoProcessor" where
  "VideoProcessor_init skip = \<lparr>frame_skip = skip, current_frame_no = 0, total_frames = 0\<rparr>"

definition progress :: "VideoProcessor \<Rightarrow> real" where
  "progress vp =
     (if total_frames vp > 0
      then (real_of_int (current_frame_no vp) / real_of_int (total_frames vp)) * 100
      else 0)"

section \<open>detector.py: the single-target speed estimator\<close>

text \<open>
  Python's floats are modelled by the real numbers. \<^verbatim>\<open>TypeError\<close> and \<^verbatim>\<open>ZeroDivisionError\<close>
  are the exceptions the arithmetic of \<^verbatim>\<open>process_frame\<close> can raise, \<^verbatim>\<open>IndexError\<close> and
  \<^verbatim>\<open>KeyError\<close> those of the tracker's list and dict reads. \<open>NonFinite\<close> is not a
  Python exception: it marks the executions in which numpy divides by a zero frame
  dimension and goes on with \<^verbatim>\<open>inf\<close> or \<^verbatim>\<open>nan\<close> (a RuntimeWarning), values the reals do not
  have; the model stops there.
\<close>

datatype py_error = TypeError | ZeroDivisionError | IndexError | KeyError | NonFinite

type_synonym point = "int \<times> int"
type_synonym box = "int \<times> int \<times> int \<times> int"

text \<open>
  The image operations of lines 43 to 60 (resize, background subtraction, threshold,
  \<^verbatim>\<open>findContours\<close>) are OpenCV's. Their result, the contour list, is an input of the model:
  a contour carries what the code asks of it, \<^verbatim>\<open>cv2.contourArea\<close> and \<^verbatim>\<open>cv2.boundingRect\<close>.
  A frame carries \<^verbatim>\<open>frame.shape[:2]\<close>.
\<close>

record contour =
  contourArea :: real
  boundingRect :: box

record frame =
  height :: nat
  width :: nat

text \<open>
  What \<^verbatim>\<open>process_frame\<close> draws on the frame it returns. The speed label shows
  \<^verbatim>\<open>display_speed\<close> (before its formatting to one decimal); \<open>None\<close> in it is numpy's \<^verbatim>\<open>nan\<close>.
\<close>

datatype annotation =
    MotionBox box
  | TrackedBox box
  | TrackingText
  | SpeedLabel "real option"

record processed =
  annotations :: "annotation list"
  speed_kmh :: "real option"

record detector =
  known_distance_m :: real
  prev_centers :: "point list"
  prev_speeds :: "real list"
  scale_m_per_px :: "real option"
  fps :: "real option"
  show_speed :: bool
  object_selected :: bool
  selected_box :: "point option"
  speed_window :: int
  max_speed_change :: real
  frame_size :: "(int \<times> int) option"
  min_contour_area :: int
  prev_center :: "point option"

definition VehicleSpeedDetector_init :: "real \<Rightarrow> detector" where
  "VehicleSpeedDetector_init known_distance =
     \<lparr>known_distance_m = known_distance, prev_centers = [], prev_speeds = [],
      scale_m_per_px = None, fps = None, show_speed = True, object_selected = False,
      selected_box = None, speed_window = 5, max_speed_change = 10,
      frame_size = None, min_contour_area = 500, prev_center = None\<rparr>"

definition radians :: "real \<Rightarrow> real" where
  "radians deg = deg * pi / 180"

text \<open>
  \<^verbatim>\<open>set_video_info\<close>. The local \<^verbatim>\<open>viewing_distance\<close> is computed and never read. The division
  is numpy's (\<^verbatim>\<open>np.cos\<close> returns a numpy float): a zero \<^verbatim>\<open>frame_width\<close> gives \<^verbatim>\<open>inf\<close> or \<^verbatim>\<open>nan\<close>.
\<close>

definition set_video_info :: "detector \<Rightarrow> int \<Rightarrow> real \<Rightarrow> py_error + detector" where
  "set_video_info d frame_width fps_in =
     (if frame_width = 0 then Inl NonFinite
      else Inr (d\<lparr>scale_m_per_px :=
                     Some (known_distance_m d / (real_of_int frame_width * cos (radians 30))),
                   fps := Some fps_in\<rparr>))"

definition EVENT_LBUTTONDOWN :: int where
  "EVENT_LBUTTONDOWN = 1"

definition select_object :: "detector \<Rightarrow> int \<Rightarrow> int \<Rightarrow> int \<Rightarrow> detector" where
  "select_object d event x y =
     (if event = EVENT_LBUTTONDOWN
      then d\<lparr>selected_box := Some (x, y), object_selected := True\<rparr>
      else d)"

text \<open>
  The loop of lines 68 to 81 over the (at most five) largest contours. \<^verbatim>\<open>min_dist\<close> starts
  at \<^verbatim>\<open>float("inf")\<close>, which is \<open>None\<close> here. Unpacking a \<^verbatim>\<open>selected_box\<close> that is \<^verbatim>\<open>None\<close>
  raises \<^verbatim>\<open>TypeError\<close>.
\<close>

record scan =
  closest_contour :: "(box \<times> point) option"
  min_dist :: "int option"
  drawn :: "annotation list"

definition scan_init :: scan where
  "scan_init = \<lparr>closest_contour = None, min_dist = None, drawn = []\<rparr>"

fun scan_contours :: "detector \<Rightarrow> contour list \<Rightarrow> scan \<Rightarrow> py_error + scan" where
  "scan_contours d [] s = Inr s"
| "scan_contours d (c # cs) s =
     (if contourArea c > real_of_int (min_contour_area d) then
        (case boundingRect c of (x, y, w, h) \<Rightarrow>
           let center = (x + w div 2, y + h div 2) in
           if object_selected d then
             (case selected_box d of
                None \<Rightarrow> Inl TypeError
              | Some (sel_x, sel_y) \<Rightarrow>
                  let dist = \<bar>fst center - sel_x\<bar> + \<bar>snd center - sel_y\<bar> in
                  if (case min_dist s of None \<Rightarrow> True | Some m \<Rightarrow> dist < m)
                  then scan_contours d cs
                         (s\<lparr>min_dist := Some dist,
                            closest_contour := Some ((x, y, w, h), center)\<rparr>)
                  else scan_contours d cs s)
           else scan_contours d cs (s\<lparr>drawn := drawn s @ [MotionBox (x, y, w, h)]\<rparr>))
      else scan_contours d cs s)"

text \<open>
  \<^verbatim>\<open>sorted(contours, key=cv2.contourArea, reverse=True)[:5]\<close>: Python's reverse sort keeps
  the original order of equal keys, that is, it reverses, sorts stably and reverses.
\<close>

definition largest_contours :: "contour list \<Rightarrow> contour list" where
  "largest_contours contours = take 5 (rev (sort_key contourArea (rev contours)))"

text \<open>
  The sliding window of lines 91 to 93 and 122 to 124: after the append, one \<^verbatim>\<open>pop(0)\<close> when
  the list is longer than \<^verbatim>\<open>speed_window\<close>.
\<close>

definition push_window :: "int \<Rightarrow> 'a list \<Rightarrow> 'a \<Rightarrow> 'a list" where
  "push_window window xs x =
     (let ys = xs @ [x] in if int (length ys) > window then tl ys else ys)"

text \<open>The perspective factor of line 103, from the current center's row.\<close>

definition perspective_factor :: "int \<Rightarrow> nat \<Rightarrow> real" where
  "perspective_factor center_y frame_height =
     1.0 + (real_of_int center_y / real frame_height) * 0.5"

text \<open>
  One round of the loop of lines 98 to 109, in the order the code evaluates it: the
  perspective factor (numpy division by the frame height), the Euclidean norm, the
  product with \<^verbatim>\<open>scale_m_per_px\<close> (\<^verbatim>\<open>TypeError\<close> when it is \<^verbatim>\<open>None\<close>), \<^verbatim>\<open>1 / self.fps\<close>
  (\<^verbatim>\<open>TypeError\<close> on \<^verbatim>\<open>None\<close>, \<^verbatim>\<open>ZeroDivisionError\<close> on zero), and the conversion to km/h.
\<close>

definition pair_speed :: "detector \<Rightarrow> frame \<Rightarrow> point \<Rightarrow> point \<Rightarrow> py_error + real" where
  "pair_speed d fr prev cur =
     (if height fr = 0 then Inl NonFinite
      else
        let factor = perspective_factor (snd cur) (height fr);
            pixel_distance =
              sqrt (real_of_int ((fst cur - fst prev) * (fst cur - fst prev) +
                                 (snd cur - snd prev) * (snd cur - snd prev)))
        in case scale_m_per_px d of
             None \<Rightarrow> Inl TypeError
           | Some scale \<Rightarrow>
               let distance_m = pixel_distance * scale * factor in
               (case fps d of
                  None \<Rightarrow> Inl TypeError
                | Some f \<Rightarrow>
                    if f = 0 then Inl ZeroDivisionError
                    else
                      let time_s = 1 / f;
                          speed_mps = distance_m / time_s
                      in Inr (speed_mps * 3.6)))"

fun pair_speeds :: "detector \<Rightarrow> frame \<Rightarrow> point list \<Rightarrow> py_error + real list" where
  "pair_speeds d fr (prev # cur # rest) =
     (case pair_speed d fr prev cur of
        Inl e \<Rightarrow> Inl e
      | Inr v \<Rightarrow>
          (case pair_speeds d fr (cur # rest) of
             Inl e \<Rightarrow> Inl e
           | Inr vs \<Rightarrow> Inr (v # vs)))"
| "pair_speeds d fr [p] = Inr []"
| "pair_speeds d fr [] = Inr []"

text \<open>\<^verbatim>\<open>np.linspace(start, stop, num)\<close> and \<^verbatim>\<open>np.average(a, weights=weights)\<close>.\<close>

definition linspace :: "real \<Rightarrow> real \<Rightarrow> nat \<Rightarrow> real list" where
  "linspace start stop_at num =
     (if num = 1 then [start]
      else map (\<lambda>i. start + real i * ((stop_at - start) / real (num - 1))) [0..<num])"

definition average :: "real list \<Rightarrow> real list \<Rightarrow> real" where
  "average a weights = sum_list (map2 (*) a weights) / sum_list weights"

definition weighted_speed :: "real list \<Rightarrow> real" where
  "weighted_speed speeds = average speeds (linspace 0.5 1.0 (length speeds))"

text \<open>
  The arithmetic of the rate limit and of the processing size is modelled with its
  rounding: \<open>round_double\<close> is the IEEE-754 double nearest to a real number (ties to even),
  in the range of the normal doubles.
\<close>

definition round_half_even :: "real \<Rightarrow> int" where
  "round_half_even y =
     (let f = \<lfloor>y\<rfloor> in
      if y - of_int f < 1 / 2 then f
      else if y - of_int f > 1 / 2 then f + 1
      else if even f then f else f + 1)"

definition round_double :: "real \<Rightarrow> real" where
  "round_double x =
     (if x = 0 then 0
      else
        let u = 2 powr (of_int (\<lfloor>log 2 \<bar>x\<bar>\<rfloor> - 52))
        in of_int (round_half_even (x / u)) * u)"

text \<open>
  Lines 116 to 120: the limit on the change from the last recorded speed. The difference,
  the product with its sign and the sum are double operations.
\<close>

definition rate_limit :: "real list \<Rightarrow> real \<Rightarrow> real \<Rightarrow> real" where
  "rate_limit speeds max_change v =
     (if speeds \<noteq> [] then
        let prev_speed = last speeds;
            diff = round_double (v - prev_speed)
        in if \<bar>diff\<bar> > max_change
           then round_double (prev_speed + round_double (max_change * sgn diff))
           else v
      else v)"

text \<open>\<^verbatim>\<open>np.median\<close>: the middle of the sorted list, the mean of the two middle values when
  the length is even, \<^verbatim>\<open>nan\<close> (here \<open>None\<close>) on an empty list.\<close>

definition median :: "real list \<Rightarrow> real option" where
  "median xs =
     (let s = sort xs; n = length xs in
      if n = 0 then None
      else if odd n then Some (s ! (n div 2))
      else Some ((s ! (n div 2 - 1) + s ! (n div 2)) / 2))"

text \<open>
  Lines 85 to 138, once a contour has been matched. The state is returned with every
  outcome: an exception leaves the center appended. The second component of the result
  is the pair the method returns, the frame being its annotations.
\<close>

definition track :: "detector \<Rightarrow> frame \<Rightarrow> box \<Rightarrow> point \<Rightarrow> annotation list \<Rightarrow>
    detector \<times> (py_error + processed)" where
  "track d fr bx center shown =
     (let shown1 = shown @ [TrackedBox bx, TrackingText];
          d1 = d\<lparr>prev_centers := push_window (speed_window d) (prev_centers d) center\<rparr>
      in if length (prev_centers d1) > 1 then
           (case pair_speeds d1 fr (prev_centers d1) of
              Inl e \<Rightarrow> (d1, Inl e)
            | Inr speeds \<Rightarrow>
                let v = rate_limit (prev_speeds d1) (max_speed_change d1) (weighted_speed speeds);
                    d2 = d1\<lparr>prev_speeds := push_window (speed_window d1) (prev_speeds d1) v\<rparr>;
                    display_speed = median (prev_speeds d2);
                    shown2 = (if show_speed d2 then shown1 @ [SpeedLabel display_speed]
                              else shown1)
                in (d2\<lparr>prev_center := Some center\<rparr>,
                    Inr \<lparr>annotations = shown2, speed_kmh = Some v\<rparr>))
         else (d1\<lparr>prev_center := Some center\<rparr>,
               Inr \<lparr>annotations = shown1, speed_kmh = None\<rparr>))"

text \<open>
  Lines 43 to 46: the processing size is fixed by the first frame wider than 1280;
  \<^verbatim>\<open>int(h * (1280/w))\<close> truncates a product of doubles. The size only feeds \<^verbatim>\<open>cv2.resize\<close>,
  which is part of the OpenCV stage whose result is the contour list: the model describes
  the calls in which that stage returns.
\<close>

definition set_frame_size :: "detector \<Rightarrow> frame \<Rightarrow> detector" where
  "set_frame_size d fr =
     (if frame_size d = None \<and> width fr > 1280
      then d\<lparr>frame_size :=
               Some (1280,
                     \<lfloor>round_double (real (height fr) *
                                    round_double (1280 / real (width fr)))\<rfloor>)\<rparr>
      else d)"

definition process_frame :: "detector \<Rightarrow> frame \<Rightarrow> contour list \<Rightarrow>
    detector \<times> (py_error + processed)" where
  "process_frame d fr contours =
     (let d0 = set_frame_size d fr
      in case scan_contours d0 (largest_contours contours) scan_init of
           Inl e \<Rightarrow> (d0, Inl e)
         | Inr s \<Rightarrow>
             (case closest_contour s of
                Some (bx, center) \<Rightarrow>
                  if object_selected d0 then track d0 fr bx center (drawn s)
                  else (d0, Inr \<lparr>annotations = drawn s, speed_kmh = None\<rparr>)
              | None \<Rightarrow> (d0, Inr \<lparr>annotations = drawn s, speed_kmh = None\<rparr>)))"

text \<open>
  A history of calls on one detector. A caller that catches the exception of
  \<^verbatim>\<open>process_frame\<close> (as \<^verbatim>\<open>VideoProcessor.process_next_frame\<close> does) goes on with the state the
  call left; the history ends, with \<open>None\<close>, where the real-number model does.
\<close>

datatype call =
    SetVideoInfo int real
  | SelectObject int int int
  | ProcessFrame frame "contour list"

fun step :: "detector \<Rightarrow> call \<Rightarrow> detector option" where
  "step d (SetVideoInfo frame_width fps_in) =
     (case set_video_info d frame_width fps_in of Inl e \<Rightarrow> None | Inr d' \<Rightarrow> Some d')"
| "step d (SelectObject event x y) = Some (select_object d event x y)"
| "step d (ProcessFrame fr contours) =
     (case process_frame d fr contours of
        (d', Inl NonFinite) \<Rightarrow> None
      | (d', r) \<Rightarrow> Some d')"

fun run :: "detector \<Rightarrow> call list \<Rightarrow> detector option" where
  "run d [] = Some d"
| "run d (c # cs) = (case step d c of None \<Rightarrow> None | Some d' \<Rightarrow> run d' cs)"

text \<open>
  Two properties of the histories: the window bound, and that neighbouring entries of the
  speed history differ by at most a given change.
\<close>

definition window_ok :: "detector \<Rightarrow> bool" where
  "window_ok d \<longleftrightarrow> 0 \<le> speed_window d \<and> int (length (prev_centers d)) \<le> speed_window d \<and>
     int (length (prev_speeds d)) \<le> speed_window d"

fun within_change :: "real \<Rightarrow> real list \<Rightarrow> bool" where
  "within_change m (x # y # rest) = (\<bar>y - x\<bar> \<le> m \<and> within_change m (y # rest))"
| "within_change m [x] = True"
| "within_change m [] = True"

text \<open>
  The same with the rounding of the double operations of the rate limit: the allowed
  change grows by the relative error \<open>1 / 2 ^ 53\<close> of each of them.
\<close>

fun within_rounded :: "real \<Rightarrow> real list \<Rightarrow> bool" where
  "within_rounded m (x # y # rest) =
     (\<bar>y - x\<bar> \<le> m + (\<bar>x\<bar> + 3 * m) / 2 ^ 53 \<and> within_rounded m (y # rest))"
| "within_rounded m [x] = True"
| "within_rounded m [] = True"

text \<open>
  A concrete session, used to run the theorems below: a 1280 by 720 video at 30 frames per
  second, a click at the origin, a blob that stands still for two frames and then jumps
  100 pixels to the right, and a blob below the minimum area.
\<close>

definition frame_720p :: frame where
  "frame_720p = \<lparr>height = 720, width = 1280\<rparr>"

definition blob_at :: "int \<Rightarrow> contour" where
  "blob_at x = \<lparr>contourArea = 1200, boundingRect = (x, 345, 40, 30)\<rparr>"

definition small_blob :: contour where
  "small_blob = \<lparr>contourArea = 100, boundingRect = (300, 300, 10, 10)\<rparr>"

definition scale_1280 :: real where
  "scale_1280 = 10 / (1280 * cos (radians 30))"

definition tracking0 :: detector where
  "tracking0 =
     \<lparr>known_distance_m = 10, prev_centers = [(20, 360), (20, 360)], prev_speeds = [0],
      scale_m_per_px = Some scale_1280, fps = Some 30, show_speed = True,
      object_selected = True, selected_box = Some (0, 0), speed_window = 5,
      max_speed_change = 10, frame_size = None, min_contour_area = 500,
      prev_center = Some (20, 360)\<rparr>"

definition tracking1 :: detector where
  "tracking1 =
     tracking0\<lparr>prev_centers := [(20, 360), (20, 360), (120, 360)], prev_speeds := [0, 10],
                prev_center := Some (120, 360)\<rparr>"

definition jump_result :: processed where
  "jump_result =
     \<lparr>annotations = [TrackedBox (100, 345, 40, 30), TrackingText, SpeedLabel (Some 5)],
      speed_kmh = Some 10\<rparr>"

definition calls0 :: "call list" where
  "calls0 =
     [SetVideoInfo 1280 30, SelectObject EVENT_LBUTTONDOWN 0 0,
      ProcessFrame frame_720p [blob_at 0], ProcessFrame frame_720p [blob_at 0]]"

definition selected0 :: detector where
  "selected0 = tracking0\<lparr>prev_centers := [], prev_speeds := [], prev_center := None\<rparr>"

definition first_result :: processed where
  "first_result =
     \<lparr>annotations = [TrackedBox (0, 345, 40, 30), TrackingText], speed_kmh = None\<rparr>"

text \<open>
  A detector whose window of five is full, with a calibration of 0.01 m per pixel, and
  the state it reaches on a frame where the blob moves on by 10 pixels; a detector on which
  \<^verbatim>\<open>set_video_info\<close> was never called.
\<close>

definition window_full :: detector where
  "window_full =
     \<lparr>known_distance_m = 10,
      prev_centers = [(20, 360), (30, 360), (40, 360), (50, 360), (60, 360)],
      prev_speeds = [9, 10, 11, 12, 13.5],
      scale_m_per_px = Some 0.01, fps = Some 30, show_speed = True,
      object_selected = True, selected_box = Some (0, 0), speed_window = 5,
      max_speed_change = 10, frame_size = None, min_contour_area = 500,
      prev_center = Some (60, 360)\<rparr>"

definition window_next :: detector where
  "window_next =
     window_full\<lparr>prev_centers := [(30, 360), (40, 360), (50, 360), (60, 360), (70, 360)],
                  prev_speeds := [10, 11, 12, 13.5, 13.5],
                  prev_center := Some (70, 360)\<rparr>"

definition steady_result :: processed where
  "steady_result =
     \<lparr>annotations = [TrackedBox (50, 345, 40, 30), TrackingText, SpeedLabel (Some 12)],
      speed_kmh = Some 13.5\<rparr>"

definition unset0 :: detector where
  "unset0 =
     (VehicleSpeedDetector_init 10)\<lparr>selected_box := Some (0, 0), object_selected := True,
                                    prev_centers := [(20, 360)], prev_center := Some (20, 360)\<rparr>"

text \<open>
  The full window on a frame where the blob moves on by 110 pixels, and a detector whose
  last recorded speed is the double \<open>60.89241120359335\<close>, on a frame where the blob moves on
  by 230 pixels.
\<close>

definition window_fast :: detector where
  "window_fast =
     window_full\<lparr>prev_centers := [(30, 360), (40, 360), (50, 360), (60, 360), (170, 360)],
                  prev_speeds := [10, 11, 12, 13.5, 23.5],
                  prev_center := Some (170, 360)\<rparr>"

definition fast_result :: processed where
  "fast_result =
     \<lparr>annotations = [TrackedBox (150, 345, 40, 30), TrackingText, SpeedLabel (Some 12)],
      speed_kmh = Some 23.5\<rparr>"

definition near_tie :: detector where
  "near_tie =
     window_full\<lparr>prev_centers := [(20, 360), (30, 360), (40, 360)],
                  prev_speeds := [4284922506346781 / 70368744177664,
                                  8569845012693563 / 140737488355328],
                  prev_center := Some (40, 360)\<rparr>"

definition tie_next :: detector where
  "tie_next =
     near_tie\<lparr>prev_centers := [(20, 360), (30, 360), (40, 360), (270, 360)],
               prev_speeds := [4284922506346781 / 70368744177664,
                               8569845012693563 / 140737488355328,
                               2494304974061711 / 35184372088832],
               prev_center := Some (270, 360)\<rparr>"

definition tie_result :: processed where
  "tie_result =
     \<lparr>annotations = [TrackedBox (250, 345, 40, 30), TrackingText,
                     SpeedLabel (Some (8569845012693563 / 140737488355328))],
      speed_kmh = Some (2494304974061711 / 35184372088832)\<rparr>"

section \<open>tracker.py: the multi-target tracker\<close>

text \<open>
  A track. \<^verbatim>\<open>id\<close> is \<open>track_id\<close> here. Positions are pairs of floats (the center
  \<^verbatim>\<open>(x + w/2, y + h/2)\<close> of a bounding box of ints), timestamps are readings of \<^verbatim>\<open>time.time()\<close>.
\<close>

type_synonym position = "real \<times> real"

record VehicleTrack =
  track_id :: int
  positions :: "position list"
  timestamps :: "real list"
  speeds :: "real list"
  last_update :: real
  color :: "int \<times> int \<times> int"

definition current_speed :: "VehicleTrack \<Rightarrow> real option" where
  "current_speed t = (if speeds t \<noteq> [] then Some (last (speeds t)) else None)"

text \<open>\<^verbatim>\<open>np.mean\<close> of a non-empty list.\<close>

definition average_speed :: "VehicleTrack \<Rightarrow> real option" where
  "average_speed t =
     (if speeds t \<noteq> [] then Some (sum_list (speeds t) / real (length (speeds t))) else None)"

definition max_speed :: "VehicleTrack \<Rightarrow> real option" where
  "max_speed t = (case speeds t of [] \<Rightarrow> None | x # xs \<Rightarrow> Some (fold max xs x))"

text \<open>\<^verbatim>\<open>is_active\<close> reads the clock; the reading is the argument \<open>now\<close>.\<close>

definition is_active :: "VehicleTrack \<Rightarrow> real \<Rightarrow> real \<Rightarrow> bool" where
  "is_active t timeout now \<longleftrightarrow> now - last_update t < timeout"

text \<open>
  The tracker. \<^verbatim>\<open>vehicles\<close> is a dict: an association list in insertion order, read with
  \<open>map_of\<close> and written with \<open>AList.update\<close> (in place for a key it has, at the end for a new
  one), as Python's dict does.
\<close>

record MultiVehicleTracker =
  next_vehicle_id :: int
  vehicles :: "(int \<times> VehicleTrack) list"
  max_disappeared :: int
  speed_unit :: string

definition MultiVehicleTracker_init :: "int \<Rightarrow> MultiVehicleTracker" where
  "MultiVehicleTracker_init disappeared =
     \<lparr>next_vehicle_id = 0, vehicles = [], max_disappeared = disappeared,
      speed_unit = ''km/h''\<rparr>"

text \<open>
  Lines 59 to 68: the search for the closest active track. Every \<^verbatim>\<open>is_active\<close> is one more
  reading of the clock: \<open>clock n\<close> is the \<open>n\<close>-th reading of \<^verbatim>\<open>time.time()\<close> in the call of
  \<^verbatim>\<open>update\<close>, and the count of readings is threaded through. \<^verbatim>\<open>min_dist\<close> is \<open>best_dist\<close>;
  it starts at \<^verbatim>\<open>float('inf')\<close>, which is \<open>None\<close> here.
\<close>

fun find_closest :: "(nat \<Rightarrow> real) \<Rightarrow> position \<Rightarrow> (int \<times> VehicleTrack) list \<Rightarrow> nat \<Rightarrow>
    int option \<Rightarrow> real option \<Rightarrow> int option \<times> nat" where
  "find_closest clock center [] n closest_id best_dist = (closest_id, n)"
| "find_closest clock center ((vid, t) # rest) n closest_id best_dist =
     (if \<not> is_active t 1.0 (clock n)
      then find_closest clock center rest (Suc n) closest_id best_dist
      else if positions t \<noteq> [] then
        (let dist = sqrt ((fst center - fst (last (positions t)))\<^sup>2 +
                          (snd center - snd (last (positions t)))\<^sup>2)
         in if (case best_dist of None \<Rightarrow> True | Some m \<Rightarrow> dist < m) \<and> dist < 50
            then find_closest clock center rest (Suc n) (Some vid) (Some dist)
            else find_closest clock center rest (Suc n) closest_id best_dist)
      else find_closest clock center rest (Suc n) closest_id best_dist)"

text \<open>
  Lines 72 to 86: the update of the matched track. \<^verbatim>\<open>timestamps[-2]\<close> raises \<^verbatim>\<open>IndexError\<close>
  on a track with fewer timestamps than positions.
\<close>

definition update_track :: "VehicleTrack \<Rightarrow> position \<Rightarrow> real \<Rightarrow> py_error + VehicleTrack" where
  "update_track t center current_time =
     (let t1 = t\<lparr>positions := positions t @ [center],
                 timestamps := timestamps t @ [current_time],
                 last_update := current_time\<rparr>
      in if length (positions t1) \<ge> 2 then
           (if length (timestamps t1) < 2 then Inl IndexError
            else
              let dt = last (timestamps t1) - last (butlast (timestamps t1)) in
              if dt > 0 then
                (let dx = fst (last (positions t1)) - fst (last (butlast (positions t1)));
                     dy = snd (last (positions t1)) - snd (last (butlast (positions t1)));
                     speed = sqrt (dx * dx + dy * dy) / dt
                 in Inr (t1\<lparr>speeds := speeds t1 @ [speed]\<rparr>))
              else Inr t1)
         else Inr t1)"

text \<open>
  The state of the loop over the detections: the tracker, the set \<^verbatim>\<open>matched_tracks\<close> and the
  count of clock readings. \<open>colour\<close> is the random colour drawn for a new track.
\<close>

record pass =
  tracker :: MultiVehicleTracker
  matched_tracks :: "int set"
  readings :: nat

definition update_detection :: "(nat \<Rightarrow> real) \<Rightarrow> real \<Rightarrow> (int \<times> int \<times> int) \<Rightarrow> pass \<Rightarrow>
    box \<Rightarrow> py_error + pass" where
  "update_detection clock current_time colour p bbox =
     (case bbox of (x, y, w, h) \<Rightarrow>
        let center = (real_of_int x + real_of_int w / 2, real_of_int y + real_of_int h / 2);
            tr = tracker p
        in case find_closest clock center (vehicles tr) (readings p) None None of
             (Some closest_id, n) \<Rightarrow>
               (case map_of (vehicles tr) closest_id of
                  None \<Rightarrow> Inl KeyError
                | Some t \<Rightarrow>
                    (case update_track t center current_time of
                       Inl e \<Rightarrow> Inl e
                     | Inr t' \<Rightarrow>
                         Inr (p\<lparr>tracker := tr\<lparr>vehicles :=
                                              AList.update closest_id t' (vehicles tr)\<rparr>,
                                 matched_tracks := insert closest_id (matched_tracks p),
                                 readings := n\<rparr>)))
           | (None, n) \<Rightarrow>
               Inr (p\<lparr>tracker :=
                        tr\<lparr>vehicles :=
                             AList.update (next_vehicle_id tr)
                               \<lparr>track_id = next_vehicle_id tr, positions = [center],
                                timestamps = [current_time], speeds = [],
                                last_update = current_time, color = colour\<rparr>
                               (vehicles tr),
                           next_vehicle_id := next_vehicle_id tr + 1\<rparr>,
                       matched_tracks := insert (next_vehicle_id tr) (matched_tracks p),
                       readings := n\<rparr>))"

fun update_detections :: "(nat \<Rightarrow> real) \<Rightarrow> real \<Rightarrow> (nat \<Rightarrow> int \<times> int \<times> int) \<Rightarrow> nat \<Rightarrow>
    pass \<Rightarrow> box list \<Rightarrow> py_error + pass" where
  "update_detections clock current_time colours k p [] = Inr p"
| "update_detections clock current_time colours k p (bbox # rest) =
     (case update_detection clock current_time (colours k) p bbox of
        Inl e \<Rightarrow> Inl e
      | Inr p' \<Rightarrow> update_detections clock current_time colours (Suc k) p' rest)"

text \<open>
  Lines 102 to 105: the dict comprehension that drops the tracks that are neither active
  nor matched. \<^verbatim>\<open>track.is_active() or vid in matched_tracks\<close> reads the clock for every track.
\<close>

fun remove_inactive :: "(nat \<Rightarrow> real) \<Rightarrow> nat \<Rightarrow> int set \<Rightarrow> (int \<times> VehicleTrack) list \<Rightarrow>
    (int \<times> VehicleTrack) list" where
  "remove_inactive clock n matched [] = []"
| "remove_inactive clock n matched ((vid, t) # rest) =
     (if is_active t 1.0 (clock n) \<or> vid \<in> matched
      then (vid, t) # remove_inactive clock (Suc n) matched rest
      else remove_inactive clock (Suc n) matched rest)"

text \<open>
  \<^verbatim>\<open>update\<close>. The first reading of the clock is \<^verbatim>\<open>current_time\<close>. \<^verbatim>\<open>draw_tracks\<close> draws on the
  frame and leaves the tracker as it is; the frame is not modelled. An exception ends the
  call (the tracker it leaves behind is not modelled).
\<close>

definition update :: "(nat \<Rightarrow> real) \<Rightarrow> (nat \<Rightarrow> int \<times> int \<times> int) \<Rightarrow> MultiVehicleTracker \<Rightarrow>
    box list \<Rightarrow> py_error + MultiVehicleTracker" where
  "update clock colours tr detections =
     (let current_time = clock 0 in
      case update_detections clock current_time colours 0
             \<lparr>tracker = tr, matched_tracks = {}, readings = 1\<rparr> detections of
        Inl e \<Rightarrow> Inl e
      | Inr p \<Rightarrow>
          Inr ((tracker p)\<lparr>vehicles :=
                 remove_inactive clock (readings p) (matched_tracks p)
                   (vehicles (tracker p))\<rparr>))"

text \<open>Python's \<^verbatim>\<open>str\<close> of an int, for the keys \<^verbatim>\<open>f"Vehicle {vid}"\<close> of the statistics.\<close>

definition digit_char :: "nat \<Rightarrow> char" where
  "digit_char d = char_of (48 + d)"

fun str_nat :: "nat \<Rightarrow> string" where
  "str_nat n = (if n < 10 then [digit_char n] else str_nat (n div 10) @ [digit_char (n mod 10)])"

definition str_int :: "int \<Rightarrow> string" where
  "str_int i = (if i < 0 then CHR ''-'' # str_nat (nat (- i)) else str_nat (nat i))"

definition vehicle_key :: "int \<Rightarrow> string" where
  "vehicle_key vid = ''Vehicle '' @ str_int vid"

record speed_statistics =
  stat_current :: "real option"
  stat_average :: "real option"
  stat_max :: "real option"

fun collect_statistics :: "(int \<times> VehicleTrack) list \<Rightarrow> (string \<times> speed_statistics) list \<Rightarrow>
    (string \<times> speed_statistics) list" where
  "collect_statistics [] stats = stats"
| "collect_statistics ((vid, t) # rest) stats =
     (if speeds t \<noteq> []
      then collect_statistics rest
             (AList.update (vehicle_key vid)
                \<lparr>stat_current = current_speed t, stat_average = average_speed t,
                 stat_max = max_speed t\<rparr> stats)
      else collect_statistics rest stats)"

definition get_speed_statistics :: "MultiVehicleTracker \<Rightarrow> (string \<times> speed_statistics) list" where
  "get_speed_statistics tr = collect_statistics (vehicles tr) []"

section \<open>The frame buffer never exceeds its capacity\<close>

lemma fb_step_maxsize: "maxsize (fb_step b c) = maxsize b"
  by (cases c) (simp_all add: put_def get_def clear_def stop_def split: list.split)

lemma fb_step_bounded:
  assumes "0 < maxsize b" and "int (length (buffer b)) \<le> maxsize b"
  shows "int (length (buffer (fb_step b c))) \<le> maxsize b"
proof (cases c)
  case (Put frame)
  with assms show ?thesis by (simp add: put_def)
next
  case Get
  with assms show ?thesis by (cases "buffer b") (simp_all add: get_def)
next
  case Clear
  with assms show ?thesis by (simp add: clear_def)
next
  case Stop
  with assms show ?thesis by (simp add: stop_def)
qed

lemma fb_run_bounded:
  "0 < maxsize b \<Longrightarrow> int (length (buffer b)) \<le> maxsize b \<Longrightarrow>
   int (length (buffer (fb_run b cs))) \<le> maxsize b \<and> maxsize (fb_run b cs) = maxsize b"
proof (induction cs arbitrary: b)
  case Nil
  then show ?case by simp
next
  case (Cons c cs)
  have "0 < maxsize (fb_step b c)"
    using Cons.prems(1) by (simp add: fb_step_maxsize)
  moreover have "int (length (buffer (fb_step b c))) \<le> maxsize (fb_step b c)"
    using fb_step_bounded [OF Cons.prems] by (simp add: fb_step_maxsize)
  ultimately show ?case
    using Cons.IH [of "fb_step b c"] by (simp add: fb_step_maxsize)
qed

text \<open>
  C2. On a buffer built with a capacity \<open>N \<ge> 1\<close> (the range of \<^verbatim>\<open>buffer_size\<close>), after every
  history of calls the number of queued frames is at most \<open>N\<close>; a \<^verbatim>\<open>put\<close> on a buffer that
  holds \<open>N\<close> frames returns \<^verbatim>\<open>False\<close> and leaves the buffer as it was; a \<^verbatim>\<open>get\<close> on an empty
  buffer returns \<^verbatim>\<open>None\<close> and leaves the buffer as it was. Both are total functions: there
  is no waiting branch.
\<close>

theorem FrameBuffer_capacity:
  fixes calls :: "'f fb_call list" and frame :: 'f
  assumes "0 < N" and "b = fb_run (FrameBuffer_init N) calls"
  shows "int (length (buffer b)) \<le> N \<and>
         (int (length (buffer b)) = N \<longrightarrow> put b frame = (b, False)) \<and>
         (buffer b = [] \<longrightarrow> get b = (b, None))"
proof -
  have run: "int (length (buffer b)) \<le> N \<and> maxsize b = N"
    unfolding assms(2) using fb_run_bounded [of "FrameBuffer_init N" calls] assms(1)
    by (simp add: FrameBuffer_init_def)
  have full: "int (length (buffer b)) = N \<longrightarrow> put b frame = (b, False)"
    using run assms(1) by (simp add: put_def)
  have empty: "buffer b = [] \<longrightarrow> get b = (b, None)"
    by (simp add: get_def)
  from run full empty show ?thesis by simp
qed

text \<open>
  The theorem at a capacity of 2: after three puts and no get the buffer holds the first
  two frames and refuses a fourth; after one put and one get it is empty and \<^verbatim>\<open>get\<close>
  returns \<^verbatim>\<open>None\<close>.
\<close>

theorem FrameBuffer_capacity_witness:
  "(0::int) < 2 \<and>
   buffer (fb_run (FrameBuffer_init 2) [Put (1::nat), Put 2, Put 3]) = [1, 2] \<and>
   put (fb_run (FrameBuffer_init 2) [Put (1::nat), Put 2, Put 3]) 4 =
     (fb_run (FrameBuffer_init 2) [Put 1, Put 2, Put 3], False) \<and>
   buffer (fb_run (FrameBuffer_init 2) [Put (1::nat), Get]) = [] \<and>
   get (fb_run (FrameBuffer_init 2) [Put (1::nat), Get]) =
     (fb_run (FrameBuffer_init 2) [Put 1, Get], None)"
proof -
  have full: "buffer (fb_run (FrameBuffer_init 2) [Put (1::nat), Put 2, Put 3]) = [1, 2]"
    by (simp add: FrameBuffer_init_def put_def)
  have empty: "buffer (fb_run (FrameBuffer_init 2) [Put (1::nat), Get]) = []"
    by (simp add: FrameBuffer_init_def put_def get_def)
  show ?thesis
    using FrameBuffer_capacity [of 2 _ "[Put (1::nat), Put 2, Put 3]" 4, OF _ refl]
      FrameBuffer_capacity [of 2 _ "[Put (1::nat), Get]" 4, OF _ refl]
      full empty
    by simp
qed

section \<open>The progress percentage\<close>

text \<open>
  C8, as the code has it. \<^verbatim>\<open>progress\<close> is \<^verbatim>\<open>current_frame_no / total_frames * 100\<close> when
  \<^verbatim>\<open>total_frames\<close> is positive and 0 otherwise; it lies in \<open>[0, 100]\<close> as long as
  \<^verbatim>\<open>0 <= current_frame_no <= total_frames\<close>. Nothing clamps it beyond that range.
\<close>

theorem progress_value:
  "progress vp =
     (if 0 < total_frames vp
      then real_of_int (current_frame_no vp) / real_of_int (total_frames vp) * 100
      else 0) \<and>
   (0 \<le> current_frame_no vp \<and> current_frame_no vp \<le> total_frames vp \<longrightarrow>
      0 \<le> progress vp \<and> progress vp \<le> 100)"
proof -
  have "0 \<le> progress vp \<and> progress vp \<le> 100"
    if "0 \<le> current_frame_no vp" and "current_frame_no vp \<le> total_frames vp"
  proof (cases "0 < total_frames vp")
    case True
    then have pos: "0 < real_of_int (total_frames vp)" by simp
    have "real_of_int (current_frame_no vp) \<le> real_of_int (total_frames vp)"
      using that by simp
    then have "real_of_int (current_frame_no vp) / real_of_int (total_frames vp) * 100 \<le> 100"
      using pos by (simp add: field_simps)
    moreover have
      "0 \<le> real_of_int (current_frame_no vp) / real_of_int (total_frames vp) * 100"
      using that pos by simp
    ultimately show ?thesis using True by (simp add: progress_def)
  next
    case False
    then show ?thesis by (simp add: progress_def)
  qed
  then show ?thesis by (simp add: progress_def)
qed

theorem progress_value_witness:
  "progress \<lparr>frame_skip = 1, current_frame_no = 5, total_frames = 10\<rparr> = 50 \<and>
   (0::int) \<le> 5 \<and> (5::int) \<le> 10 \<and>
   0 \<le> progress \<lparr>frame_skip = 1, current_frame_no = 5, total_frames = 10\<rparr> \<and>
   progress \<lparr>frame_skip = 1, current_frame_no = 5, total_frames = 10\<rparr> \<le> 100"
  using progress_value [of "\<lparr>frame_skip = 1, current_frame_no = 5, total_frames = 10\<rparr>"]
  by simp

text \<open>
  C8 as the specification states it fails: with 11 frames read of a video whose header
  announces 10, \<^verbatim>\<open>progress\<close> is 110.
\<close>

theorem progress_exceeds_100:
  "progress \<lparr>frame_skip = 1, current_frame_no = 11, total_frames = 10\<rparr> = 110 \<and>
   \<not> progress \<lparr>frame_skip = 1, current_frame_no = 11, total_frames = 10\<rparr> \<le> 100"
  by (simp add: progress_def)

section \<open>The estimator: how a frame changes the state\<close>

text \<open>Rounding to a double.\<close>

lemma round_half_even_int: "round_half_even (of_int n) = n"
  by (simp add: round_half_even_def)

lemma round_half_even_close: "\<bar>of_int (round_half_even y) - y\<bar> \<le> 1 / 2"
proof -
  have "of_int \<lfloor>y\<rfloor> \<le> y" and "y < of_int \<lfloor>y\<rfloor> + 1" by linarith+
  then show ?thesis by (auto simp: round_half_even_def Let_def)
qed

lemma round_half_even_ge: "of_int n \<le> y \<Longrightarrow> n \<le> round_half_even y"
proof -
  assume "of_int n \<le> y"
  then have "n \<le> \<lfloor>y\<rfloor>" by (simp add: le_floor_iff)
  then show ?thesis by (auto simp: round_half_even_def Let_def)
qed

lemma floor_log2:
  fixes x :: real
  assumes "2 ^ k \<le> x" and "x < 2 ^ Suc k"
  shows "\<lfloor>log 2 x\<rfloor> = int k"
proof -
  have pos: "0 < x" using assms(1) by (smt (verit) zero_less_power)
  have "(2::real) powr (real_of_int (int k)) = 2 ^ k"
    by (simp add: powr_realpow)
  moreover have "(2::real) powr (real_of_int (int k + 1)) = 2 ^ Suc k"
  proof -
    have "real_of_int (int k + 1) = real (Suc k)" by simp
    then show ?thesis by (simp only: powr_realpow zero_less_numeral)
  qed
  ultimately have "2 powr (real_of_int (int k)) \<le> x \<and> x < 2 powr (real_of_int (int k + 1))"
    using assms by simp
  then show ?thesis
    using floor_log_eq_powr_iff [of x 2 "int k"] pos by simp
qed

lemma round_double_eval:
  assumes "2 ^ k \<le> \<bar>x\<bar>" and "\<bar>x\<bar> < 2 ^ Suc k" and "k \<le> 52"
  shows "round_double x = of_int (round_half_even (x * 2 ^ (52 - k))) / 2 ^ (52 - k)"
proof -
  have "0 < (2::real) ^ k" by simp
  with assms(1) have "0 < \<bar>x\<bar>" by linarith
  then have nz: "x \<noteq> 0" by simp
  have e: "\<lfloor>log 2 \<bar>x\<bar>\<rfloor> = int k" using assms(1,2) by (rule floor_log2)
  have "real_of_int (int k - 52) = - real (52 - k)" using assms(3) by simp
  then have "2 powr (real_of_int (int k - 52)) = 2 powr (- real (52 - k))" by (simp only:)
  also have "\<dots> = inverse (2 powr (real (52 - k)))" by (rule powr_minus)
  also have "\<dots> = inverse (2 ^ (52 - k))" by (simp only: powr_realpow zero_less_numeral)
  finally have u: "2 powr (real_of_int (int k - 52)) = inverse (2 ^ (52 - k))" .
  have "round_double x =
      of_int (round_half_even (x / 2 powr (real_of_int (\<lfloor>log 2 \<bar>x\<bar>\<rfloor> - 52)))) *
      2 powr (real_of_int (\<lfloor>log 2 \<bar>x\<bar>\<rfloor> - 52))"
    using nz by (simp only: round_double_def Let_def if_False)
  also have "\<dots> = of_int (round_half_even (x / inverse (2 ^ (52 - k)))) * inverse (2 ^ (52 - k))"
    by (simp only: e u)
  also have "\<dots> = of_int (round_half_even (x * 2 ^ (52 - k))) / 2 ^ (52 - k)"
    by (simp only: divide_inverse inverse_inverse_eq)
  finally show ?thesis .
qed

lemma round_double_10: "round_double 10 = 10"
proof -
  have "round_double 10 = of_int (round_half_even (10 * 2 ^ (52 - 3))) / 2 ^ (52 - 3)"
    by (rule round_double_eval) simp_all
  also have "(10::real) * 2 ^ (52 - 3) = of_int (10 * 2 ^ 49)" by simp
  finally show ?thesis by (simp only: round_half_even_int) simp
qed

lemma round_double_ge_pow2:
  assumes "2 ^ k \<le> x"
  shows "2 ^ k \<le> round_double x"
proof -
  have pos: "0 < x" using assms by (smt (verit) zero_less_power)
  define e where "e = \<lfloor>log 2 x\<rfloor>"
  define u :: real where "u = 2 powr (of_int (e - 52))"
  have upos: "0 < u" by (simp add: u_def)
  have "2 powr (of_int e) \<le> x"
    using floor_log_eq_powr_iff [of x 2 e] pos by (simp add: e_def)
  moreover have "2 powr (of_int e) = 2 ^ 52 * u"
    by (simp add: u_def powr_diff powr_realpow [symmetric])
  ultimately have "of_int (2 ^ 52) \<le> x / u"
    using upos by (simp add: pos_le_divide_eq)
  then have "2 ^ 52 \<le> round_half_even (x / u)" by (rule round_half_even_ge)
  then have "(2::real) ^ 52 \<le> of_int (round_half_even (x / u))"
    by (metis of_int_le_iff of_int_numeral of_int_power)
  then have "2 ^ 52 * u \<le> of_int (round_half_even (x / u)) * u"
    using upos by simp
  moreover have "round_double x = of_int (round_half_even (x / u)) * u"
    using pos by (simp add: round_double_def u_def e_def Let_def)
  moreover have "int k \<le> e"
  proof -
    have "2 powr (of_int (int k)) \<le> x" using assms by (simp add: powr_realpow)
    then have "of_int (int k) \<le> log 2 x" using pos by (simp add: le_log_iff)
    then show ?thesis by (simp add: e_def le_floor_iff)
  qed
  then have "(2::real) ^ k \<le> 2 powr (of_int e)"
    by (metis of_int_le_iff of_int_of_nat_eq one_le_numeral powr_mono powr_realpow zero_less_numeral)
  ultimately show ?thesis using \<open>2 powr (of_int e) = 2 ^ 52 * u\<close> by simp
qed

lemma round_double_close:
  "\<bar>round_double x - x\<bar> \<le> \<bar>x\<bar> / 2 ^ 53"
proof (cases "x = 0")
  case True
  then show ?thesis by (simp add: round_double_def)
next
  case False
  define e where "e = \<lfloor>log 2 \<bar>x\<bar>\<rfloor>"
  define u :: real where "u = 2 powr (of_int (e - 52))"
  have upos: "0 < u" by (simp add: u_def)
  have rd: "round_double x = of_int (round_half_even (x / u)) * u"
    using False by (simp add: round_double_def u_def e_def Let_def)
  have "\<bar>of_int (round_half_even (x / u)) - x / u\<bar> \<le> 1 / 2"
    by (rule round_half_even_close)
  then have "\<bar>of_int (round_half_even (x / u)) - x / u\<bar> * u \<le> 1 / 2 * u"
    using upos by (simp only: mult_le_cancel_right_pos)
  moreover have "\<bar>of_int (round_half_even (x / u)) - x / u\<bar> * u =
      \<bar>of_int (round_half_even (x / u)) * u - x\<bar>"
  proof -
    have "\<bar>of_int (round_half_even (x / u)) - x / u\<bar> * u =
        \<bar>(of_int (round_half_even (x / u)) - x / u) * u\<bar>"
      using upos by (simp add: abs_mult)
    also have "(of_int (round_half_even (x / u)) - x / u) * u =
        of_int (round_half_even (x / u)) * u - x"
      using upos by (simp add: left_diff_distrib)
    finally show ?thesis .
  qed
  ultimately have half: "\<bar>round_double x - x\<bar> \<le> u / 2" by (simp add: rd)
  have "2 powr (of_int e) \<le> \<bar>x\<bar>"
    using floor_log_eq_powr_iff [of "\<bar>x\<bar>" 2 e] False by (simp add: e_def)
  moreover have "2 powr (of_int e) = 2 ^ 52 * u"
    by (simp add: u_def powr_diff powr_realpow [symmetric])
  ultimately have "u / 2 \<le> \<bar>x\<bar> / 2 ^ 53" by simp
  with half show ?thesis by linarith
qed

lemma push_window_length:
  "0 \<le> w \<Longrightarrow> int (length xs) \<le> w \<Longrightarrow> int (length (push_window w xs x)) \<le> w"
  by (simp add: push_window_def Let_def)

lemma push_window_last:
  "1 \<le> w \<Longrightarrow> push_window w xs x \<noteq> [] \<and> last (push_window w xs x) = x"
  by (cases xs) (auto simp: push_window_def Let_def)

lemma pair_speed_fields:
  "scale_m_per_px d' = scale_m_per_px d \<Longrightarrow> fps d' = fps d \<Longrightarrow>
   pair_speed d' fr p q = pair_speed d fr p q"
  by (simp add: pair_speed_def Let_def split: option.split)

lemma pair_speeds_fields:
  assumes "scale_m_per_px d' = scale_m_per_px d" and "fps d' = fps d"
  shows "pair_speeds d' fr ps = pair_speeds d fr ps"
proof -
  have pair: "pair_speed d' fr p q = pair_speed d fr p q" for p q
    using assms by (rule pair_speed_fields)
  show ?thesis
    by (induction ps rule: induct_list012) (simp_all add: pair split: sum.split)
qed

lemma scan_contours_fields:
  "min_contour_area d' = min_contour_area d \<Longrightarrow> object_selected d' = object_selected d \<Longrightarrow>
   selected_box d' = selected_box d \<Longrightarrow> scan_contours d' cs s = scan_contours d cs s"
  by (induction cs arbitrary: s) (simp_all add: Let_def split: prod.split option.split)

lemma scan_contours_step:
  "scan_contours d (c # cs) s = Inl TypeError \<or>
   (\<exists>s'. scan_contours d (c # cs) s = scan_contours d cs s')"
proof -
  obtain x y w h where b: "boundingRect c = (x, y, w, h)"
    by (cases "boundingRect c") auto
  show ?thesis
  proof (cases "selected_box d")
    case None
    then show ?thesis using b by (auto simp: Let_def)
  next
    case (Some p)
    obtain sel_x sel_y where "p = (sel_x, sel_y)" by (cases p)
    with Some show ?thesis using b by (auto simp: Let_def)
  qed
qed

lemma scan_contours_error: "scan_contours d cs s = Inl e \<Longrightarrow> e = TypeError"
proof (induction cs arbitrary: s)
  case Nil
  then show ?case by simp
next
  case (Cons c cs)
  from scan_contours_step [of d c cs s] show ?case
  proof
    assume "scan_contours d (c # cs) s = Inl TypeError"
    with Cons.prems show ?thesis by simp
  next
    assume "\<exists>s'. scan_contours d (c # cs) s = scan_contours d cs s'"
    then obtain s' where "scan_contours d (c # cs) s = scan_contours d cs s'" ..
    with Cons.prems have "scan_contours d cs s' = Inl e" by simp
    then show ?thesis by (rule Cons.IH)
  qed
qed

lemma scan_contours_none_above:
  "\<forall>c \<in> set cs. contourArea c \<le> real_of_int (min_contour_area d) \<Longrightarrow>
   scan_contours d cs s = Inr s"
  by (induction cs) simp_all

text \<open>The three ways a tracked frame ends.\<close>

lemma track_cases:
  assumes "track d fr bx c shown = (d', r)"
  obtains
    (short) "length (push_window (speed_window d) (prev_centers d) c) \<le> 1"
      "d' = d\<lparr>prev_centers := push_window (speed_window d) (prev_centers d) c,
              prev_center := Some c\<rparr>"
      "r = Inr \<lparr>annotations = shown @ [TrackedBox bx, TrackingText], speed_kmh = None\<rparr>"
  | (raised) e where
      "1 < length (push_window (speed_window d) (prev_centers d) c)"
      "pair_speeds d fr (push_window (speed_window d) (prev_centers d) c) = Inl e"
      "d' = d\<lparr>prev_centers := push_window (speed_window d) (prev_centers d) c\<rparr>"
      "r = Inl e"
  | (speed) vs v where
      "1 < length (push_window (speed_window d) (prev_centers d) c)"
      "pair_speeds d fr (push_window (speed_window d) (prev_centers d) c) = Inr vs"
      "v = rate_limit (prev_speeds d) (max_speed_change d) (weighted_speed vs)"
      "d' = d\<lparr>prev_centers := push_window (speed_window d) (prev_centers d) c,
              prev_speeds := push_window (speed_window d) (prev_speeds d) v,
              prev_center := Some c\<rparr>"
      "r = Inr \<lparr>annotations =
                  (if show_speed d
                   then shown @ [TrackedBox bx, TrackingText] @
                        [SpeedLabel (median (push_window (speed_window d) (prev_speeds d) v))]
                   else shown @ [TrackedBox bx, TrackingText]),
                speed_kmh = Some v\<rparr>"
proof -
  let ?cs = "push_window (speed_window d) (prev_centers d) c"
  let ?d1 = "d\<lparr>prev_centers := ?cs\<rparr>"
  have ps: "pair_speeds ?d1 fr ?cs = pair_speeds d fr ?cs"
    by (rule pair_speeds_fields) simp_all
  show thesis
  proof (cases "1 < length ?cs")
    case False
    with assms short show ?thesis by (auto simp: track_def Let_def)
  next
    case True
    show ?thesis
    proof (cases "pair_speeds d fr ?cs")
      case (Inl e)
      with assms True ps raised show ?thesis by (auto simp: track_def Let_def)
    next
      case (Inr vs)
      with assms True ps speed [of vs] show ?thesis
        by (auto simp: track_def Let_def)
    qed
  qed
qed



lemma set_frame_size_fields [simp]:
  "prev_centers (set_frame_size d fr) = prev_centers d"
  "prev_speeds (set_frame_size d fr) = prev_speeds d"
  "speed_window (set_frame_size d fr) = speed_window d"
  "max_speed_change (set_frame_size d fr) = max_speed_change d"
  "scale_m_per_px (set_frame_size d fr) = scale_m_per_px d"
  "fps (set_frame_size d fr) = fps d"
  "show_speed (set_frame_size d fr) = show_speed d"
  "object_selected (set_frame_size d fr) = object_selected d"
  "selected_box (set_frame_size d fr) = selected_box d"
  "min_contour_area (set_frame_size d fr) = min_contour_area d"
  by (simp_all add: set_frame_size_def)

lemma process_frame_unfold:
  "process_frame d fr contours =
    (case scan_contours d (largest_contours contours) scan_init of
       Inl e \<Rightarrow> (set_frame_size d fr, Inl e)
     | Inr s \<Rightarrow>
         (case closest_contour s of
            Some (bx, center) \<Rightarrow>
              if object_selected d then track (set_frame_size d fr) fr bx center (drawn s)
              else (set_frame_size d fr, Inr \<lparr>annotations = drawn s, speed_kmh = None\<rparr>)
          | None \<Rightarrow> (set_frame_size d fr, Inr \<lparr>annotations = drawn s, speed_kmh = None\<rparr>)))"
proof -
  have scan: "scan_contours (set_frame_size d fr) cs s = scan_contours d cs s" for cs s
    by (rule scan_contours_fields) simp_all
  show ?thesis
    by (simp only: process_frame_def Let_def scan set_frame_size_fields)
qed



lemma process_frame_cases:
  assumes "process_frame d fr contours = (d', r)"
  obtains
    (raised) "r = Inl TypeError" "d' = set_frame_size d fr"
  | (unmatched) shown where "r = Inr \<lparr>annotations = shown, speed_kmh = None\<rparr>"
      "d' = set_frame_size d fr"
  | (tracked) bx center shown s where
      "scan_contours d (largest_contours contours) scan_init = Inr s"
      "closest_contour s = Some (bx, center)" "object_selected d"
      "track (set_frame_size d fr) fr bx center shown = (d', r)"
proof (cases "scan_contours d (largest_contours contours) scan_init")
  case (Inl e)
  have e: "e = TypeError"
    using Inl by (rule scan_contours_error)
  have "(d', r) = (set_frame_size d fr, Inl e)"
    unfolding assms [symmetric] process_frame_unfold Inl by simp
  then have "r = Inl TypeError" "d' = set_frame_size d fr" using e by simp_all
  then show ?thesis by (rule raised)
next
  case (Inr s)
  show ?thesis
  proof (cases "closest_contour s")
    case None
    have "(d', r) = (set_frame_size d fr, Inr \<lparr>annotations = drawn s, speed_kmh = None\<rparr>)"
      unfolding assms [symmetric] process_frame_unfold Inr by (simp add: None)
    then have "r = Inr \<lparr>annotations = drawn s, speed_kmh = None\<rparr>" "d' = set_frame_size d fr"
      by simp_all
    then show ?thesis by (rule unmatched)
  next
    case (Some m)
    obtain bx center where m: "m = (bx, center)" by (cases m)
    show ?thesis
    proof (cases "object_selected d")
      case True
      have "(d', r) = track (set_frame_size d fr) fr bx center (drawn s)"
        unfolding assms [symmetric] process_frame_unfold Inr by (simp add: Some m True)
      then have "track (set_frame_size d fr) fr bx center (drawn s) = (d', r)" by simp
      with Inr Some m True show ?thesis by (simp add: tracked)
    next
      case False
      have "(d', r) = (set_frame_size d fr, Inr \<lparr>annotations = drawn s, speed_kmh = None\<rparr>)"
        unfolding assms [symmetric] process_frame_unfold Inr by (simp add: Some m False)
      then have "r = Inr \<lparr>annotations = drawn s, speed_kmh = None\<rparr>"
        "d' = set_frame_size d fr"
        by simp_all
      then show ?thesis by (rule unmatched)
    qed
  qed
qed

lemma track_window:
  assumes "track d fr bx c shown = (d', r)" and "window_ok d"
  shows "window_ok d' \<and> speed_window d' = speed_window d"
  using assms(1)
proof (cases rule: track_cases)
  case short
  with assms(2) show ?thesis by (simp add: window_ok_def push_window_length)
next
  case (raised e)
  with assms(2) show ?thesis by (simp add: window_ok_def push_window_length)
next
  case (speed vs v)
  with assms(2) show ?thesis by (simp add: window_ok_def push_window_length)
qed

lemma process_frame_window:
  assumes "process_frame d fr contours = (d', r)" and "window_ok d"
  shows "window_ok d' \<and> speed_window d' = speed_window d"
  using assms(1)
proof (cases rule: process_frame_cases)
  case raised
  with assms(2) show ?thesis by (simp add: window_ok_def)
next
  case (unmatched shown)
  with assms(2) show ?thesis by (simp add: window_ok_def)
next
  case (tracked bx center shown s)
  have "window_ok (set_frame_size d fr)" using assms(2) by (simp add: window_ok_def)
  with tracked(4) show ?thesis using track_window by fastforce
qed


lemma step_window:
  assumes "step d c = Some d'" and "window_ok d"
  shows "window_ok d' \<and> speed_window d' = speed_window d"
proof (cases c)
  case (SetVideoInfo w f)
  with assms show ?thesis
    by (auto simp: set_video_info_def window_ok_def split: if_splits)
next
  case (SelectObject event x y)
  with assms show ?thesis
    by (auto simp: select_object_def window_ok_def split: if_splits)
next
  case (ProcessFrame fr contours)
  obtain d1 r where pf: "process_frame d fr contours = (d1, r)"
    by (cases "process_frame d fr contours")
  have "d' = d1"
    using assms(1) ProcessFrame pf by (auto split: sum.splits py_error.splits)
  with process_frame_window [OF pf assms(2)] show ?thesis by simp
qed

lemma run_window:
  "run d calls = Some d' \<Longrightarrow> window_ok d \<Longrightarrow> window_ok d' \<and> speed_window d' = speed_window d"
proof (induction calls arbitrary: d)
  case Nil
  then show ?case by simp
next
  case (Cons c calls)
  from Cons.prems(1) obtain d1 where s: "step d c = Some d1" and r: "run d1 calls = Some d'"
    by (auto split: option.splits)
  from step_window [OF s Cons.prems(2)] Cons.IH [OF r] show ?case by simp
qed

text \<open>
  C4. The perspective factor is \<open>1 + 0.5 * (center_y / frame_height)\<close>, it is 1 at
  \<open>center_y = 0\<close>, it does not decrease as \<open>center_y\<close> grows from 0 to the frame height,
  and it is the factor in the speed of each pair of consecutive centers.
\<close>

theorem perspective_factor_monotone:
  "perspective_factor y h = 1 + 0.5 * (real_of_int y / real h) \<and>
   perspective_factor 0 h = 1 \<and>
   (0 < h \<and> 0 \<le> y1 \<and> y1 \<le> y2 \<and> y2 \<le> int h \<longrightarrow>
      perspective_factor y1 h \<le> perspective_factor y2 h) \<and>
   (pair_speed d fr prev cur = Inr v \<longrightarrow>
      (\<exists>scale f. scale_m_per_px d = Some scale \<and> fps d = Some f \<and>
         v = sqrt (real_of_int ((fst cur - fst prev) * (fst cur - fst prev) +
                                (snd cur - snd prev) * (snd cur - snd prev))) *
             scale * perspective_factor (snd cur) (height fr) / (1 / f) * 3.6))"
proof -
  have mono: "perspective_factor y1 h \<le> perspective_factor y2 h"
    if "0 < h" and "y1 \<le> y2"
  proof -
    have "real_of_int y1 / real h \<le> real_of_int y2 / real h"
      using that by (simp add: divide_right_mono)
    then show ?thesis by (simp add: perspective_factor_def)
  qed
  have applied: "\<exists>scale f. scale_m_per_px d = Some scale \<and> fps d = Some f \<and>
         v = sqrt (real_of_int ((fst cur - fst prev) * (fst cur - fst prev) +
                                (snd cur - snd prev) * (snd cur - snd prev))) *
             scale * perspective_factor (snd cur) (height fr) / (1 / f) * 3.6"
    if "pair_speed d fr prev cur = Inr v"
    using that
    by (auto simp: pair_speed_def Let_def split: if_splits option.splits)
  have "perspective_factor y h = 1 + 0.5 * (real_of_int y / real h)"
    by (simp add: perspective_factor_def)
  moreover have "perspective_factor 0 h = 1"
    by (simp add: perspective_factor_def)
  ultimately show ?thesis using mono applied by blast
qed

lemma cos_radians_30: "0 < cos (radians 30)"
proof -
  have r: "radians 30 = pi / 6" by (simp add: radians_def)
  show ?thesis unfolding r by (simp add: cos_30)
qed

text \<open>
  C9. With a positive known distance and a positive frame width, \<^verbatim>\<open>set_video_info\<close> sets a
  strictly positive scale, and twice the width gives exactly half the scale.
\<close>

theorem set_video_info_scale:
  assumes "0 < known_distance_m d" and "0 < w"
  shows "\<exists>d1 d2 s1 s2.
           set_video_info d w f = Inr d1 \<and> scale_m_per_px d1 = Some s1 \<and>
           set_video_info d (2 * w) f = Inr d2 \<and> scale_m_per_px d2 = Some s2 \<and>
           0 < s1 \<and> 0 < s2 \<and> s2 = s1 / 2"
proof -
  let ?c = "cos (radians 30)"
  have "0 < known_distance_m d / (real_of_int w * ?c)"
    using assms cos_radians_30 by simp
  moreover have "0 < known_distance_m d / (real_of_int (2 * w) * ?c)"
    using assms cos_radians_30 by simp
  moreover have "known_distance_m d / (real_of_int (2 * w) * ?c) =
      known_distance_m d / (real_of_int w * ?c) / 2"
    by simp
  ultimately show ?thesis using assms(2) by (simp add: set_video_info_def)
qed


text \<open>
  C6. When the scan of the frame's contours leaves \<^verbatim>\<open>closest_contour\<close> at \<^verbatim>\<open>None\<close> (as it does
  when no contour is above the minimum area), \<^verbatim>\<open>process_frame\<close> returns \<^verbatim>\<open>None\<close> as the speed
  and leaves both histories as they were. Whenever the position history holds fewer than
  two entries after the call, the returned speed is \<^verbatim>\<open>None\<close>.
\<close>

theorem no_match_keeps_history:
  assumes "process_frame d fr contours = (d', r)"
  shows "(scan_contours d (largest_contours contours) scan_init = Inr s \<and>
          closest_contour s = None \<longrightarrow>
            r = Inr \<lparr>annotations = drawn s, speed_kmh = None\<rparr> \<and>
            prev_centers d' = prev_centers d \<and> prev_speeds d' = prev_speeds d) \<and>
         ((\<forall>c \<in> set (largest_contours contours).
             contourArea c \<le> real_of_int (min_contour_area d)) \<longrightarrow>
            scan_contours d (largest_contours contours) scan_init = Inr scan_init \<and>
            closest_contour scan_init = None) \<and>
         (\<forall>out. r = Inr out \<and> length (prev_centers d') < 2 \<longrightarrow> speed_kmh out = None)"
proof (intro conjI impI allI)
  assume a: "scan_contours d (largest_contours contours) scan_init = Inr s \<and>
          closest_contour s = None"
  then have scan: "scan_contours d (largest_contours contours) scan_init = Inr s"
    and closest: "closest_contour s = None" by simp_all
  have "process_frame d fr contours =
      (set_frame_size d fr, Inr \<lparr>annotations = drawn s, speed_kmh = None\<rparr>)"
    unfolding process_frame_unfold scan by (simp add: closest)
  with assms have res: "d' = set_frame_size d fr"
    "r = Inr \<lparr>annotations = drawn s, speed_kmh = None\<rparr>" by simp_all
  show "r = Inr \<lparr>annotations = drawn s, speed_kmh = None\<rparr>" by (rule res(2))
  show "prev_centers d' = prev_centers d" by (simp add: res(1))
  show "prev_speeds d' = prev_speeds d" by (simp add: res(1))
next
  assume "\<forall>c \<in> set (largest_contours contours).
             contourArea c \<le> real_of_int (min_contour_area d)"
  then show "scan_contours d (largest_contours contours) scan_init = Inr scan_init"
    by (rule scan_contours_none_above)
next
  show "closest_contour scan_init = None" by (simp add: scan_init_def)
next
  fix out
  assume b: "r = Inr out \<and> length (prev_centers d') < 2"
  from assms show "speed_kmh out = None"
  proof (cases rule: process_frame_cases)
    case raised
    with b show ?thesis by simp
  next
    case (unmatched shown)
    with b show ?thesis by auto
  next
    case (tracked bx center shown s)
    from tracked(4) show ?thesis
    proof (cases rule: track_cases)
      case short
      with b show ?thesis by auto
    next
      case (raised e)
      with b show ?thesis by simp
    next
      case (speed vs v)
      with b show ?thesis by simp
    qed
  qed
qed

lemma process_frame_speed:
  assumes "process_frame d fr contours = (d', Inr out)" and "speed_kmh out = Some v"
  obtains vs where
    "pair_speeds d fr (prev_centers d') = Inr vs"
    "v = rate_limit (prev_speeds d) (max_speed_change d) (weighted_speed vs)"
    "prev_speeds d' = push_window (speed_window d) (prev_speeds d) v"
    "annotations out \<noteq> []"
    "show_speed d \<Longrightarrow> last (annotations out) = SpeedLabel (median (prev_speeds d'))"
  using assms(1)
proof (cases rule: process_frame_cases)
  case raised
  then show ?thesis by simp
next
  case (unmatched shown)
  with assms(2) show ?thesis by auto
next
  case (tracked bx center shown s)
  from tracked(4) show ?thesis
  proof (cases rule: track_cases)
    case short
    with assms(2) show ?thesis by auto
  next
    case (raised e)
    then show ?thesis by simp
  next
    case (speed vs w)
    have ps: "pair_speeds d fr (prev_centers d') = Inr vs"
      using speed(2,4) pair_speeds_fields [of "set_frame_size d fr" d fr] by simp
    have v: "w = v" using speed(5) assms(2) by auto
    have out: "annotations out =
        (if show_speed d
         then shown @ [TrackedBox bx, TrackingText] @
              [SpeedLabel (median (push_window (speed_window d) (prev_speeds d) w))]
         else shown @ [TrackedBox bx, TrackingText])"
      using speed(5) by auto
    show ?thesis
    proof (rule that [OF ps])
      show "v = rate_limit (prev_speeds d) (max_speed_change d) (weighted_speed vs)"
        using speed(3) v by simp
      show "prev_speeds d' = push_window (speed_window d) (prev_speeds d) v"
        using speed(4) v by simp
      show "annotations out \<noteq> []" using out by simp
      show "last (annotations out) = SpeedLabel (median (prev_speeds d'))" if "show_speed d"
        using out that speed(4) by simp
    qed
  qed
qed

section \<open>The concrete session, evaluated\<close>

lemma track_speedI:
  assumes "cs = push_window (speed_window d) (prev_centers d) c"
    and "1 < length cs"
    and "pair_speeds d fr cs = Inr vs"
    and "v = rate_limit (prev_speeds d) (max_speed_change d) (weighted_speed vs)"
    and "hist = push_window (speed_window d) (prev_speeds d) v"
  shows "track d fr bx c shown =
    (d\<lparr>prev_centers := cs, prev_speeds := hist, prev_center := Some c\<rparr>,
     Inr \<lparr>annotations =
            (if show_speed d
             then shown @ [TrackedBox bx, TrackingText] @ [SpeedLabel (median hist)]
             else shown @ [TrackedBox bx, TrackingText]),
          speed_kmh = Some v\<rparr>)"
proof -
  have "pair_speeds (d\<lparr>prev_centers := cs\<rparr>) fr cs = Inr vs"
    using assms(3) pair_speeds_fields [of "d\<lparr>prev_centers := cs\<rparr>" d fr cs] by simp
  then show ?thesis
    using assms(2) unfolding track_def Let_def assms(1) [symmetric] assms(4,5)
    by simp
qed

lemma scale_1280_bounds: "1 / 128 \<le> scale_1280"
proof -
  have c: "0 < cos (radians 30)" by (rule cos_radians_30)
  have "cos (radians 30) \<le> 1" by simp
  then have "1280 * cos (radians 30) \<le> 1280" by simp
  moreover have "0 < 1280 * cos (radians 30)" using c by simp
  ultimately have "10 / 1280 \<le> 10 / (1280 * cos (radians 30))"
    by (intro divide_left_mono) simp_all
  then show ?thesis by (simp add: scale_1280_def)
qed

lemma sqrt_10000: "sqrt 10000 = 100"
  by (rule real_sqrt_unique) simp_all

lemma scan_blob:
  "scan_contours tracking0 (largest_contours [blob_at x]) scan_init =
     Inr \<lparr>closest_contour = Some ((x, 345, 40, 30), (x + 20, 360)),
          min_dist = Some (\<bar>x + 20\<bar> + 360), drawn = []\<rparr>"
  by (simp add: largest_contours_def blob_at_def scan_init_def tracking0_def)

lemma pair_speeds_jump:
  "pair_speeds tracking0 frame_720p [(20, 360), (20, 360), (120, 360)] =
     Inr [0, 13500 * scale_1280]"
  by (simp add: pair_speed_def perspective_factor_def tracking0_def frame_720p_def sqrt_10000)

lemma weighted_speed_jump: "weighted_speed [0, 13500 * scale_1280] = 9000 * scale_1280"
  by (simp add: weighted_speed_def average_def linspace_def upt_rec)

lemma rate_limit_jump: "rate_limit [0] 10 (9000 * scale_1280) = 10"
proof -
  have "2 ^ 6 \<le> 9000 * scale_1280" using scale_1280_bounds by simp
  then have "2 ^ 6 \<le> round_double (9000 * scale_1280)" by (rule round_double_ge_pow2)
  then have big: "10 < round_double (9000 * scale_1280)" by simp
  then have "sgn (round_double (9000 * scale_1280)) = 1" by simp
  with big show ?thesis by (simp add: rate_limit_def round_double_10)
qed

lemma median_0_10: "median [0, 10] = Some 5"
  by (simp add: median_def)

lemma process_frame_jump:
  "process_frame tracking0 frame_720p [blob_at 100] =
     (tracking1,
      Inr \<lparr>annotations = [TrackedBox (100, 345, 40, 30), TrackingText, SpeedLabel (Some 5)],
           speed_kmh = Some 10\<rparr>)"
proof -
  have fs: "set_frame_size tracking0 frame_720p = tracking0"
    by (simp add: set_frame_size_def frame_720p_def)
  have tr: "track tracking0 frame_720p (100, 345, 40, 30) (120, 360) [] =
     (tracking0\<lparr>prev_centers := [(20, 360), (20, 360), (120, 360)], prev_speeds := [0, 10],
                prev_center := Some (120, 360)\<rparr>,
      Inr \<lparr>annotations =
             (if show_speed tracking0
              then [] @ [TrackedBox (100, 345, 40, 30), TrackingText] @
                   [SpeedLabel (median [0, 10])]
              else [] @ [TrackedBox (100, 345, 40, 30), TrackingText]),
           speed_kmh = Some 10\<rparr>)"
  proof (rule track_speedI)
    show "[(20, 360), (20, 360), (120, 360)] =
        push_window (speed_window tracking0) (prev_centers tracking0) (120, 360)"
      by (simp add: push_window_def tracking0_def)
    show "1 < length [(20::int, 360::int), (20, 360), (120, 360)]" by simp
    show "pair_speeds tracking0 frame_720p [(20, 360), (20, 360), (120, 360)] =
        Inr [0, 13500 * scale_1280]"
      by (rule pair_speeds_jump)
    show "10 = rate_limit (prev_speeds tracking0) (max_speed_change tracking0)
        (weighted_speed [0, 13500 * scale_1280])"
      by (simp add: weighted_speed_jump tracking0_def rate_limit_jump)
    show "[0, 10] = push_window (speed_window tracking0) (prev_speeds tracking0) 10"
      by (simp add: push_window_def tracking0_def)
  qed
  have sel: "object_selected tracking0" "show_speed tracking0"
    by (simp_all add: tracking0_def)
  show ?thesis
    unfolding process_frame_unfold scan_blob fs
    by (simp add: tr sel median_0_10 tracking1_def)
qed


lemma run_calls0: "run (VehicleSpeedDetector_init 10) calls0 = Some tracking0"
  by (simp add: calls0_def VehicleSpeedDetector_init_def set_video_info_def select_object_def
      EVENT_LBUTTONDOWN_def process_frame_def set_frame_size_def frame_720p_def blob_at_def
      largest_contours_def scan_init_def track_def push_window_def pair_speed_def
      perspective_factor_def weighted_speed_def average_def linspace_def rate_limit_def
      median_def tracking0_def scale_1280_def)

lemma process_frame_small:
  "process_frame tracking1 frame_720p [small_blob] =
     (tracking1, Inr \<lparr>annotations = [], speed_kmh = None\<rparr>)"
  by (simp add: process_frame_def set_frame_size_def frame_720p_def small_blob_def
      largest_contours_def scan_init_def tracking1_def tracking0_def)


text \<open>
  C1, as the code has it. The speed that \<^verbatim>\<open>process_frame\<close> returns is \<^verbatim>\<open>speed_kmh\<close>, the
  rate-limited weighted speed it has just appended: it is the last entry of the speed
  history. The median of the speed history is \<^verbatim>\<open>display_speed\<close>, which is only drawn, as
  the last annotation of the frame when \<^verbatim>\<open>show_speed\<close> is on. The median of
  \<open>[10, 12, 11, 50, 11]\<close> is 11.
\<close>

theorem returned_speed_is_last_entry:
  "(process_frame d fr contours = (d', Inr out) \<and> speed_kmh out = Some v \<and>
    1 \<le> speed_window d \<longrightarrow>
      prev_speeds d' \<noteq> [] \<and> last (prev_speeds d') = v \<and>
      annotations out \<noteq> [] \<and>
      (show_speed d \<longrightarrow> last (annotations out) = SpeedLabel (median (prev_speeds d')))) \<and>
   median [10, 12, 11, 50, 11] = Some 11"
proof (intro conjI impI)
  assume a: "process_frame d fr contours = (d', Inr out) \<and> speed_kmh out = Some v \<and>
    1 \<le> speed_window d"
  then have pf: "process_frame d fr contours = (d', Inr out)"
    and sp: "speed_kmh out = Some v" and w: "1 \<le> speed_window d" by simp_all
  from pf sp have "prev_speeds d' = push_window (speed_window d) (prev_speeds d) v \<and>
      annotations out \<noteq> [] \<and>
      (show_speed d \<longrightarrow> last (annotations out) = SpeedLabel (median (prev_speeds d')))"
    by (rule process_frame_speed) simp
  then have hist: "prev_speeds d' = push_window (speed_window d) (prev_speeds d) v" and
    ann: "annotations out \<noteq> []" and
    label: "show_speed d \<Longrightarrow> last (annotations out) = SpeedLabel (median (prev_speeds d'))"
    by simp_all
  show "prev_speeds d' \<noteq> []" and "last (prev_speeds d') = v"
    using push_window_last [OF w, of "prev_speeds d" v] by (simp_all add: hist)
  show "annotations out \<noteq> []" by (rule ann)
  show "last (annotations out) = SpeedLabel (median (prev_speeds d'))" if "show_speed d"
    using that by (rule label)
next
  show "median [10, 12, 11, 50, 11] = Some 11" by (simp add: median_def)
qed

text \<open>
  The theorem on the frame of the jump: the returned speed is 10, the last entry of the
  history \<open>[0, 10]\<close>, and the label shows the median 5.
\<close>

theorem returned_speed_is_last_entry_witness:
  "process_frame tracking0 frame_720p [blob_at 100] = (tracking1, Inr jump_result) \<and>
   speed_kmh jump_result = Some 10 \<and> 1 \<le> speed_window tracking0 \<and>
   prev_speeds tracking1 \<noteq> [] \<and> last (prev_speeds tracking1) = 10 \<and>
   annotations jump_result \<noteq> [] \<and> show_speed tracking0 \<and>
   last (annotations jump_result) = SpeedLabel (median (prev_speeds tracking1)) \<and>
   last (annotations jump_result) = SpeedLabel (Some 5)"
proof -
  note inst = returned_speed_is_last_entry [of tracking0 frame_720p "[blob_at 100]" tracking1
      jump_result 10]
  have h: "process_frame tracking0 frame_720p [blob_at 100] = (tracking1, Inr jump_result) \<and>
      speed_kmh jump_result = Some 10 \<and> 1 \<le> speed_window tracking0"
    using process_frame_jump by (simp add: jump_result_def tracking0_def)
  have s: "show_speed tracking0" by (simp add: tracking0_def)
  have l: "last (annotations jump_result) = SpeedLabel (Some 5)"
    by (simp add: jump_result_def)
  note c = inst [THEN conjunct1, THEN mp, OF h]
  note c4 = c [THEN conjunct2, THEN conjunct2, THEN conjunct2, THEN mp, OF s]
  from h c c4 s l show ?thesis
    by (elim conjE, intro conjI) assumption+
qed

text \<open>
  C1 as the specification states it fails. On a fresh detector for a 10 m reference,
  after \<^verbatim>\<open>set_video_info(1280, 30)\<close>, a click at the origin and two frames with the blob at
  rest, the frame of the jump returns the speed 10, while the speed history is
  \<open>[0, 10]\<close> and its median is 5.
\<close>

theorem returned_speed_not_median:
  "run (VehicleSpeedDetector_init 10) calls0 = Some tracking0 \<and>
   process_frame tracking0 frame_720p [blob_at 100] = (tracking1, Inr jump_result) \<and>
   speed_kmh jump_result = Some 10 \<and>
   prev_speeds tracking1 = [0, 10] \<and>
   median (prev_speeds tracking1) = Some 5 \<and>
   speed_kmh jump_result \<noteq> median (prev_speeds tracking1)"
proof -
  have h: "process_frame tracking0 frame_720p [blob_at 100] = (tracking1, Inr jump_result)"
    using process_frame_jump by (simp add: jump_result_def)
  have s: "speed_kmh jump_result = Some 10" by (simp add: jump_result_def)
  have p: "prev_speeds tracking1 = [0, 10]" by (simp add: tracking1_def)
  have m: "median (prev_speeds tracking1) = Some 5" unfolding p by (rule median_0_10)
  have n: "speed_kmh jump_result \<noteq> median (prev_speeds tracking1)"
    unfolding s m by simp
  from run_calls0 h s p m n show ?thesis by (intro conjI)
qed

lemma pair_speed_jump:
  "pair_speed tracking0 frame_720p (20, 360) (120, 360) = Inr (13500 * scale_1280)"
  by (simp add: pair_speed_def perspective_factor_def tracking0_def frame_720p_def sqrt_10000)

text \<open>
  The theorem in a frame 720 rows high: the factor is 1.25 at row 360, not less than at
  row 100, and it is the factor in the speed of the jump from (20, 360) to (120, 360).
\<close>

theorem perspective_factor_monotone_witness:
  "perspective_factor 360 720 = 1 + 0.5 * (real_of_int 360 / real 720) \<and>
   perspective_factor 360 720 = 1.25 \<and>
   perspective_factor 0 720 = 1 \<and>
   (0::nat) < 720 \<and> (0::int) \<le> 100 \<and> (100::int) \<le> 360 \<and> (360::int) \<le> int 720 \<and>
   perspective_factor 100 720 \<le> perspective_factor 360 720 \<and>
   pair_speed tracking0 frame_720p (20, 360) (120, 360) = Inr (13500 * scale_1280) \<and>
   (\<exists>scale f. scale_m_per_px tracking0 = Some scale \<and> fps tracking0 = Some f \<and>
      13500 * scale_1280 =
        sqrt (real_of_int (((120::int) - 20) * (120 - 20) + ((360::int) - 360) * (360 - 360))) *
        scale * perspective_factor 360 (height frame_720p) / (1 / f) * 3.6)"
proof -
  note inst = perspective_factor_monotone [of 360 720 100 360 tracking0 frame_720p
      "(20, 360)" "(120, 360)" "13500 * scale_1280"]
  have h1: "(0::nat) < 720 \<and> (0::int) \<le> 100 \<and> (100::int) \<le> 360 \<and> (360::int) \<le> int 720"
    by simp
  have h2: "pair_speed tracking0 frame_720p (20, 360) (120, 360) = Inr (13500 * scale_1280)"
    by (rule pair_speed_jump)
  have v: "perspective_factor 360 720 = 1.25"
    by (simp add: perspective_factor_def)
  note c1 = inst [THEN conjunct1]
  note c2 = inst [THEN conjunct2, THEN conjunct1]
  note c3 = inst [THEN conjunct2, THEN conjunct2, THEN conjunct1, THEN mp, OF h1]
  note c4 = inst [THEN conjunct2, THEN conjunct2, THEN conjunct2, THEN mp, OF h2,
      unfolded fst_conv snd_conv]
  from c1 v c2 h1 c3 h2 c4 show ?thesis
    by (elim conjE, intro conjI) assumption+
qed

text \<open>The theorem for a 10 m reference and the widths 1280 and 2560.\<close>

theorem set_video_info_scale_witness:
  "0 < known_distance_m (VehicleSpeedDetector_init 10) \<and> (0::int) < 1280 \<and>
   (\<exists>d1 d2 s1 s2.
      set_video_info (VehicleSpeedDetector_init 10) 1280 30 = Inr d1 \<and>
      scale_m_per_px d1 = Some s1 \<and>
      set_video_info (VehicleSpeedDetector_init 10) (2 * 1280) 30 = Inr d2 \<and>
      scale_m_per_px d2 = Some s2 \<and>
      0 < s1 \<and> 0 < s2 \<and> s2 = s1 / 2)"
proof -
  have h1: "0 < known_distance_m (VehicleSpeedDetector_init 10)"
    by (simp add: VehicleSpeedDetector_init_def)
  have h2: "(0::int) < 1280" by simp
  from h1 h2 set_video_info_scale [OF h1 h2, of 30] show ?thesis
    by (intro conjI)
qed

lemma process_frame_first:
  "process_frame selected0 frame_720p [blob_at 0] =
     (selected0\<lparr>prev_centers := [(20, 360)], prev_center := Some (20, 360)\<rparr>,
      Inr first_result)"
  by (simp add: process_frame_def set_frame_size_def frame_720p_def blob_at_def
      largest_contours_def scan_init_def track_def push_window_def selected0_def
      tracking0_def first_result_def)

text \<open>
  The theorem on a frame whose only blob is below the minimum area (nothing changes, the
  speed is \<^verbatim>\<open>None\<close>), and on the first matched frame after the click (one center in the
  history, the speed is \<^verbatim>\<open>None\<close>).
\<close>

theorem no_match_keeps_history_witness:
  "process_frame tracking1 frame_720p [small_blob] =
     (tracking1, Inr \<lparr>annotations = [], speed_kmh = None\<rparr>) \<and>
   largest_contours [small_blob] = [small_blob] \<and>
   contourArea small_blob \<le> real_of_int (min_contour_area tracking1) \<and>
   scan_contours tracking1 (largest_contours [small_blob]) scan_init = Inr scan_init \<and>
   closest_contour scan_init = None \<and>
   Inr \<lparr>annotations = [], speed_kmh = None\<rparr> =
     (Inr \<lparr>annotations = drawn scan_init, speed_kmh = None\<rparr> :: py_error + processed) \<and>
   prev_centers tracking1 = prev_centers tracking1 \<and>
   process_frame selected0 frame_720p [blob_at 0] =
     (selected0\<lparr>prev_centers := [(20, 360)], prev_center := Some (20, 360)\<rparr>,
      Inr first_result) \<and>
   length (prev_centers (selected0\<lparr>prev_centers := [(20, 360)],
                                    prev_center := Some (20, 360)\<rparr>)) < 2 \<and>
   speed_kmh first_result = None"
proof -
  have pf: "process_frame tracking1 frame_720p [small_blob] =
     (tracking1, Inr \<lparr>annotations = [], speed_kmh = None\<rparr>)"
    by (rule process_frame_small)
  note inst = no_match_keeps_history [OF pf, of scan_init]
  have l: "largest_contours [small_blob] = [small_blob]"
    by (simp add: largest_contours_def)
  have a: "contourArea small_blob \<le> real_of_int (min_contour_area tracking1)"
    by (simp add: small_blob_def tracking1_def tracking0_def)
  have h2: "\<forall>c \<in> set (largest_contours [small_blob]).
      contourArea c \<le> real_of_int (min_contour_area tracking1)"
    using a by (simp add: l)
  note c2 = inst [THEN conjunct2, THEN conjunct1, THEN mp, OF h2]
  note c1 = inst [THEN conjunct1, THEN mp, OF c2]
  have pf1: "process_frame selected0 frame_720p [blob_at 0] =
     (selected0\<lparr>prev_centers := [(20, 360)], prev_center := Some (20, 360)\<rparr>,
      Inr first_result)"
    by (rule process_frame_first)
  have h3: "Inr first_result = (Inr first_result :: py_error + processed) \<and>
      length (prev_centers (selected0\<lparr>prev_centers := [(20, 360)],
                                       prev_center := Some (20, 360)\<rparr>)) < 2"
    by simp
  note c3 = no_match_keeps_history [OF pf1, of scan_init, THEN conjunct2, THEN conjunct2,
      THEN spec, THEN mp, OF h3]
  have r: "prev_centers tracking1 = prev_centers tracking1" ..
  from pf l a c2 c1 r pf1 h3 c3 show ?thesis
    by (elim conjE, intro conjI) assumption+
qed

lemma round_double_eval_int:
  assumes "2 ^ k \<le> \<bar>x\<bar>" and "\<bar>x\<bar> < 2 ^ Suc k" and "k \<le> 52"
    and "x * 2 ^ (52 - k) = of_int n"
  shows "round_double x = x"
proof -
  have "round_double x = of_int (round_half_even (x * 2 ^ (52 - k))) / 2 ^ (52 - k)"
    using assms(1-3) by (rule round_double_eval)
  also have "\<dots> = of_int n / 2 ^ (52 - k)"
    by (simp only: assms(4) round_half_even_int)
  also have "\<dots> = x" using assms(4) by (simp add: field_simps)
  finally show ?thesis .
qed

lemma round_double_45: "round_double 45 = 45"
  by (rule round_double_eval_int [where k = 5 and n = "45 * 2 ^ 47"]) simp_all

lemma round_double_47_2: "round_double (47 / 2) = 47 / 2"
  by (rule round_double_eval_int [where k = 4 and n = "47 * 2 ^ 47"]) simp_all

lemma sqrt_100: "sqrt 100 = 10"
  by (rule real_sqrt_unique) simp_all

lemma sqrt_12100: "sqrt 12100 = 110"
  by (rule real_sqrt_unique) simp_all

lemma process_frame_steady:
  "process_frame window_full frame_720p [blob_at 50] =
     (window_full\<lparr>prev_centers := [(30, 360), (40, 360), (50, 360), (60, 360), (70, 360)],
                  prev_speeds := [10, 11, 12, 13.5, 13.5],
                  prev_center := Some (70, 360)\<rparr>,
      Inr \<lparr>annotations = [TrackedBox (50, 345, 40, 30), TrackingText, SpeedLabel (Some 12)],
           speed_kmh = Some 13.5\<rparr>)"
  by (simp add: process_frame_def set_frame_size_def frame_720p_def blob_at_def
      largest_contours_def scan_init_def track_def push_window_def pair_speed_def
      perspective_factor_def weighted_speed_def average_def linspace_def rate_limit_def
      median_def window_full_def sqrt_100 upt_rec round_double_def Let_def)

lemma process_frame_fast:
  "process_frame window_full frame_720p [blob_at 150] =
     (window_full\<lparr>prev_centers := [(30, 360), (40, 360), (50, 360), (60, 360), (170, 360)],
                  prev_speeds := [10, 11, 12, 13.5, 23.5],
                  prev_center := Some (170, 360)\<rparr>,
      Inr \<lparr>annotations = [TrackedBox (150, 345, 40, 30), TrackingText, SpeedLabel (Some 12)],
           speed_kmh = Some 23.5\<rparr>)"
  by (simp add: process_frame_def set_frame_size_def frame_720p_def blob_at_def
      largest_contours_def scan_init_def track_def push_window_def pair_speed_def
      perspective_factor_def weighted_speed_def average_def linspace_def rate_limit_def
      median_def window_full_def sqrt_100 sqrt_12100 upt_rec round_double_45 round_double_10
      round_double_47_2 Let_def)

lemma track_centers:
  assumes "track d fr bx c shown = (d', r)"
  shows "prev_centers d' = push_window (speed_window d) (prev_centers d) c"
  using assms by (cases rule: track_cases) simp_all

lemma process_frame_tracked:
  assumes "scan_contours d (largest_contours contours) scan_init = Inr s"
    and "closest_contour s = Some (bx, center)" and "object_selected d"
  shows "process_frame d fr contours = track (set_frame_size d fr) fr bx center (drawn s)"
  unfolding process_frame_unfold assms(1) by (simp add: assms(2,3))

lemma process_frame_no_speed:
  assumes "process_frame d fr contours = (d', r)"
    and "\<And>out v. r = Inr out \<Longrightarrow> speed_kmh out \<noteq> Some v"
  shows "prev_speeds d' = prev_speeds d"
  using assms(1)
proof (cases rule: process_frame_cases)
  case raised
  then show ?thesis by simp
next
  case (unmatched shown)
  then show ?thesis by simp
next
  case (tracked bx center shown s)
  from tracked(4) show ?thesis
  proof (cases rule: track_cases)
    case short
    then show ?thesis by simp
  next
    case (raised e)
    then show ?thesis by simp
  next
    case (speed vs v)
    with assms(2) [of _ v] show ?thesis by simp
  qed
qed

text \<open>
  C5. A call of \<^verbatim>\<open>process_frame\<close> keeps both histories within \<^verbatim>\<open>speed_window\<close>, whatever
  the call returns or raises, and leaves \<^verbatim>\<open>speed_window\<close> as it was; so after every history
  of calls on a fresh detector both hold at most 5 entries. When a contour is matched, the
  new position history is the old one with the matched center appended and, if that is
  longer than \<^verbatim>\<open>speed_window\<close>, without its oldest entry; when a speed is returned, the new
  speed history is the old one with that speed appended and, if that is longer than
  \<^verbatim>\<open>speed_window\<close>, without its oldest entry; a call that returns no speed or raises leaves
  the speed history as it was.
\<close>

theorem history_window_bounded:
  "(0 \<le> speed_window d \<and> int (length (prev_centers d)) \<le> speed_window d \<and>
    int (length (prev_speeds d)) \<le> speed_window d \<and>
    process_frame d fr contours = (d', r) \<longrightarrow>
      int (length (prev_centers d')) \<le> speed_window d' \<and>
      int (length (prev_speeds d')) \<le> speed_window d' \<and>
      speed_window d' = speed_window d) \<and>
   (scan_contours d (largest_contours contours) scan_init = Inr s \<and>
    closest_contour s = Some (bx, center) \<and> object_selected d \<and>
    process_frame d fr contours = (d', r) \<longrightarrow>
      prev_centers d' =
        (if int (length (prev_centers d @ [center])) > speed_window d
         then tl (prev_centers d @ [center]) else prev_centers d @ [center])) \<and>
   (process_frame d fr contours = (d', Inr out) \<and> speed_kmh out = Some v \<longrightarrow>
      prev_speeds d' =
        (if int (length (prev_speeds d @ [v])) > speed_window d
         then tl (prev_speeds d @ [v]) else prev_speeds d @ [v])) \<and>
   (process_frame d fr contours = (d', Inr out) \<and> speed_kmh out = None \<longrightarrow>
      prev_speeds d' = prev_speeds d) \<and>
   (process_frame d fr contours = (d', Inl e) \<longrightarrow> prev_speeds d' = prev_speeds d) \<and>
   (run (VehicleSpeedDetector_init k) calls = Some d'' \<longrightarrow>
      length (prev_centers d'') \<le> 5 \<and> length (prev_speeds d'') \<le> 5 \<and>
      speed_window d'' = 5)"
proof (intro conjI impI)
  assume a: "0 \<le> speed_window d \<and> int (length (prev_centers d)) \<le> speed_window d \<and>
    int (length (prev_speeds d)) \<le> speed_window d \<and>
    process_frame d fr contours = (d', r)"
  then have "window_ok d" and pf: "process_frame d fr contours = (d', r)"
    by (simp_all add: window_ok_def)
  from process_frame_window [OF pf this(1)]
  show "int (length (prev_centers d')) \<le> speed_window d'"
    and "int (length (prev_speeds d')) \<le> speed_window d'"
    and "speed_window d' = speed_window d"
    by (simp_all add: window_ok_def)
next
  assume b: "scan_contours d (largest_contours contours) scan_init = Inr s \<and>
    closest_contour s = Some (bx, center) \<and> object_selected d \<and>
    process_frame d fr contours = (d', r)"
  then have "track (set_frame_size d fr) fr bx center (drawn s) = (d', r)"
    using process_frame_tracked [of d contours s bx center fr] by simp
  then have "prev_centers d' =
      push_window (speed_window (set_frame_size d fr)) (prev_centers (set_frame_size d fr))
        center"
    by (rule track_centers)
  then show "prev_centers d' =
        (if int (length (prev_centers d @ [center])) > speed_window d
         then tl (prev_centers d @ [center]) else prev_centers d @ [center])"
    by (simp add: push_window_def Let_def)
next
  assume c: "process_frame d fr contours = (d', Inr out) \<and> speed_kmh out = Some v"
  then have pf: "process_frame d fr contours = (d', Inr out)"
    and sp: "speed_kmh out = Some v" by simp_all
  from pf sp have "prev_speeds d' = push_window (speed_window d) (prev_speeds d) v"
    by (rule process_frame_speed)
  then show "prev_speeds d' =
        (if int (length (prev_speeds d @ [v])) > speed_window d
         then tl (prev_speeds d @ [v]) else prev_speeds d @ [v])"
    by (simp add: push_window_def Let_def)
next
  assume "process_frame d fr contours = (d', Inr out) \<and> speed_kmh out = None"
  then have pf: "process_frame d fr contours = (d', Inr out)"
    and none: "speed_kmh out = None" by simp_all
  from pf show "prev_speeds d' = prev_speeds d"
    by (rule process_frame_no_speed) (use none in auto)
next
  assume "process_frame d fr contours = (d', Inl e)"
  then show "prev_speeds d' = prev_speeds d"
    by (rule process_frame_no_speed) simp
next
  assume run: "run (VehicleSpeedDetector_init k) calls = Some d''"
  have init: "window_ok (VehicleSpeedDetector_init k)"
    by (simp add: window_ok_def VehicleSpeedDetector_init_def)
  from run_window [OF run init]
  show "length (prev_centers d'') \<le> 5" and "length (prev_speeds d'') \<le> 5"
    and "speed_window d'' = 5"
    by (simp_all add: window_ok_def VehicleSpeedDetector_init_def)
qed

lemma process_frame_steady':
  "process_frame window_full frame_720p [blob_at 50] = (window_next, Inr steady_result)"
  using process_frame_steady by (simp add: window_next_def steady_result_def)

lemma scan_window_full:
  "scan_contours window_full (largest_contours [blob_at 50]) scan_init =
     Inr \<lparr>closest_contour = Some ((50, 345, 40, 30), (70, 360)),
          min_dist = Some 430, drawn = []\<rparr>"
  by (simp add: largest_contours_def blob_at_def scan_init_def window_full_def)

lemma process_frame_unset:
  "process_frame unset0 frame_720p [blob_at 0] =
     (unset0\<lparr>prev_centers := [(20, 360), (20, 360)]\<rparr>, Inl TypeError)"
  by (simp add: process_frame_def set_frame_size_def frame_720p_def blob_at_def
      largest_contours_def scan_init_def track_def push_window_def pair_speed_def
      perspective_factor_def unset0_def VehicleSpeedDetector_init_def Let_def)

text \<open>
  The theorem on a full window: the oldest center (20, 360) and the oldest speed 9 are
  evicted, the new center (70, 360) and the new speed 13.5 are the last entries. Also on a
  frame without a match, on a call that raises, and on the concrete session.
\<close>

theorem history_window_bounded_witness:
  "0 \<le> speed_window window_full \<and>
   int (length (prev_centers window_full)) \<le> speed_window window_full \<and>
   int (length (prev_speeds window_full)) \<le> speed_window window_full \<and>
   process_frame window_full frame_720p [blob_at 50] = (window_next, Inr steady_result) \<and>
   int (length (prev_centers window_next)) \<le> speed_window window_next \<and>
   int (length (prev_speeds window_next)) \<le> speed_window window_next \<and>
   speed_window window_next = speed_window window_full \<and>
   closest_contour \<lparr>closest_contour = Some ((50, 345, 40, 30), (70, 360)),
                    min_dist = Some 430, drawn = []\<rparr> = Some ((50, 345, 40, 30), (70, 360)) \<and>
   object_selected window_full \<and>
   prev_centers window_next =
     (if int (length (prev_centers window_full @ [(70, 360)])) > speed_window window_full
      then tl (prev_centers window_full @ [(70, 360)])
      else prev_centers window_full @ [(70, 360)]) \<and>
   speed_kmh steady_result = Some 13.5 \<and>
   prev_speeds window_next =
     (if int (length (prev_speeds window_full @ [13.5])) > speed_window window_full
      then tl (prev_speeds window_full @ [13.5])
      else prev_speeds window_full @ [13.5]) \<and>
   prev_centers window_full = [(20, 360), (30, 360), (40, 360), (50, 360), (60, 360)] \<and>
   prev_centers window_next = [(30, 360), (40, 360), (50, 360), (60, 360), (70, 360)] \<and>
   prev_speeds window_full = [9, 10, 11, 12, 13.5] \<and>
   prev_speeds window_next = [10, 11, 12, 13.5, 13.5] \<and>
   process_frame tracking1 frame_720p [small_blob] =
     (tracking1, Inr \<lparr>annotations = [], speed_kmh = None\<rparr>) \<and>
   process_frame unset0 frame_720p [blob_at 0] =
     (unset0\<lparr>prev_centers := [(20, 360), (20, 360)]\<rparr>, Inl TypeError) \<and>
   prev_speeds (unset0\<lparr>prev_centers := [(20, 360), (20, 360)]\<rparr>) = prev_speeds unset0 \<and>
   run (VehicleSpeedDetector_init 10) calls0 = Some tracking0 \<and>
   length (prev_centers tracking0) \<le> 5 \<and> length (prev_speeds tracking0) \<le> 5 \<and>
   speed_window tracking0 = 5"
proof -
  let ?s = "\<lparr>closest_contour = Some ((50, 345, 40, 30), (70, 360)),
            min_dist = Some 430, drawn = []\<rparr>"
  note inst = history_window_bounded [of window_full frame_720p "[blob_at 50]" window_next
      "Inr steady_result" ?s "(50, 345, 40, 30)" "(70, 360)" steady_result "27 / 2" _ 10
      calls0 tracking0]
  have pf: "process_frame window_full frame_720p [blob_at 50] = (window_next, Inr steady_result)"
    by (rule process_frame_steady')
  have h1: "0 \<le> speed_window window_full \<and>
      int (length (prev_centers window_full)) \<le> speed_window window_full \<and>
      int (length (prev_speeds window_full)) \<le> speed_window window_full \<and>
      process_frame window_full frame_720p [blob_at 50] = (window_next, Inr steady_result)"
    using pf by (simp add: window_full_def)
  have cl: "closest_contour ?s = Some ((50, 345, 40, 30), (70, 360))" by simp
  have sel: "object_selected window_full" by (simp add: window_full_def)
  have h2: "scan_contours window_full (largest_contours [blob_at 50]) scan_init = Inr ?s \<and>
      closest_contour ?s = Some ((50, 345, 40, 30), (70, 360)) \<and>
      object_selected window_full \<and>
      process_frame window_full frame_720p [blob_at 50] = (window_next, Inr steady_result)"
    using scan_window_full sel pf by simp
  have sp: "speed_kmh steady_result = Some 13.5" by (simp add: steady_result_def)
  have h3: "process_frame window_full frame_720p [blob_at 50] =
      (window_next, Inr steady_result) \<and> speed_kmh steady_result = Some (27 / 2)"
    using pf sp by simp
  note c1 = inst [THEN conjunct1, THEN mp, OF h1]
  note c2 = inst [THEN conjunct2, THEN conjunct1, THEN mp, OF h2]
  note c3 = inst [THEN conjunct2, THEN conjunct2, THEN conjunct1, THEN mp, OF h3]
  have c3': "prev_speeds window_next =
     (if int (length (prev_speeds window_full @ [13.5])) > speed_window window_full
      then tl (prev_speeds window_full @ [13.5])
      else prev_speeds window_full @ [13.5])"
    using c3 by simp
  have lists: "prev_centers window_full = [(20, 360), (30, 360), (40, 360), (50, 360), (60, 360)]"
    "prev_centers window_next = [(30, 360), (40, 360), (50, 360), (60, 360), (70, 360)]"
    "prev_speeds window_full = [9, 10, 11, 12, 13.5]"
    "prev_speeds window_next = [10, 11, 12, 13.5, 13.5]"
    by (simp_all add: window_full_def window_next_def)
  have h4: "process_frame tracking1 frame_720p [small_blob] =
      (tracking1, Inr \<lparr>annotations = [], speed_kmh = None\<rparr>) \<and>
      speed_kmh \<lparr>annotations = [], speed_kmh = None\<rparr> = None"
    using process_frame_small by simp
  note c4 = history_window_bounded [of tracking1 frame_720p "[small_blob]" tracking1 _ _ _ _
      "\<lparr>annotations = [], speed_kmh = None\<rparr>",
      THEN conjunct2, THEN conjunct2, THEN conjunct2, THEN conjunct1, THEN mp, OF h4]
  have h5: "process_frame unset0 frame_720p [blob_at 0] =
      (unset0\<lparr>prev_centers := [(20, 360), (20, 360)]\<rparr>, Inl TypeError)"
    by (rule process_frame_unset)
  note c5 = history_window_bounded [of unset0 frame_720p "[blob_at 0]"
      "unset0\<lparr>prev_centers := [(20, 360), (20, 360)]\<rparr>" _ _ _ _ _ _ TypeError,
      THEN conjunct2, THEN conjunct2, THEN conjunct2, THEN conjunct2, THEN conjunct1,
      THEN mp, OF h5]
  have h6: "run (VehicleSpeedDetector_init 10) calls0 = Some tracking0" by (rule run_calls0)
  note c6 = inst [THEN conjunct2, THEN conjunct2, THEN conjunct2, THEN conjunct2,
      THEN conjunct2, THEN mp, OF h6]
  from h1 c1 cl sel c2 sp c3' lists h4 c4 h5 c5 h6 c6 show ?thesis
    by (elim conjE, intro conjI) assumption+
qed

section \<open>The rate limit\<close>

lemma within_rounded_tl: "within_rounded m xs \<Longrightarrow> within_rounded m (tl xs)"
  by (induction m xs rule: within_rounded.induct) simp_all

lemma within_rounded_append:
  "within_rounded m xs \<Longrightarrow>
   xs = [] \<or> \<bar>v - last xs\<bar> \<le> m + (\<bar>last xs\<bar> + 3 * m) / 2 ^ 53 \<Longrightarrow>
   within_rounded m (xs @ [v])"
  by (induction m xs rule: within_rounded.induct) simp_all

lemma within_rounded_push:
  "within_rounded m xs \<Longrightarrow>
   xs = [] \<or> \<bar>v - last xs\<bar> \<le> m + (\<bar>last xs\<bar> + 3 * m) / 2 ^ 53 \<Longrightarrow>
   within_rounded m (push_window w xs v)"
  by (simp add: push_window_def Let_def within_rounded_append within_rounded_tl)

lemma rate_limit_bound:
  assumes "0 \<le> m" and "xs \<noteq> []"
  shows "\<bar>rate_limit xs m w - last xs\<bar> \<le> m + (\<bar>last xs\<bar> + 3 * m) / 2 ^ 53"
proof -
  define p where "p = last xs"
  define dd where "dd = round_double (w - p)"
  show ?thesis
  proof (cases "m < \<bar>dd\<bar>")
    case True
    define c where "c = round_double (m * sgn dd)"
    define v where "v = round_double (p + c)"
    have rl: "rate_limit xs m w = v"
      using True assms(2) by (simp add: rate_limit_def Let_def p_def dd_def c_def v_def)
    from True assms(1) have "dd \<noteq> 0" by auto
    then have "\<bar>sgn dd\<bar> = 1" by (simp add: abs_sgn_eq)
    then have ms: "\<bar>m * sgn dd\<bar> = m" using assms(1) by (simp add: abs_mult)
    have "\<bar>c - m * sgn dd\<bar> \<le> \<bar>m * sgn dd\<bar> / 2 ^ 53"
      unfolding c_def by (rule round_double_close)
    then have c1: "\<bar>c - m * sgn dd\<bar> \<le> m / 2 ^ 53" by (simp only: ms)
    have "\<bar>c\<bar> \<le> \<bar>c - m * sgn dd\<bar> + \<bar>m * sgn dd\<bar>" by linarith
    with c1 ms have cb: "\<bar>c\<bar> \<le> m + m / 2 ^ 53" by linarith
    have "\<bar>v - (p + c)\<bar> \<le> \<bar>p + c\<bar> / 2 ^ 53"
      unfolding v_def by (rule round_double_close)
    moreover have "\<bar>p + c\<bar> / 2 ^ 53 \<le> (\<bar>p\<bar> + \<bar>c\<bar>) / 2 ^ 53"
      by (intro divide_right_mono abs_triangle_ineq) simp
    ultimately have v1: "\<bar>v - (p + c)\<bar> \<le> (\<bar>p\<bar> + \<bar>c\<bar>) / 2 ^ 53" by linarith
    have "\<bar>v - p\<bar> \<le> \<bar>v - (p + c)\<bar> + \<bar>c\<bar>" by linarith
    with v1 have "\<bar>v - p\<bar> \<le> (\<bar>p\<bar> + \<bar>c\<bar>) / 2 ^ 53 + \<bar>c\<bar>" by linarith
    also have "\<dots> \<le> (\<bar>p\<bar> + (m + m / 2 ^ 53)) / 2 ^ 53 + (m + m / 2 ^ 53)"
      using cb by (intro add_mono divide_right_mono) simp_all
    also have "\<dots> \<le> m + (\<bar>p\<bar> + 3 * m) / 2 ^ 53"
      using assms(1) by (simp add: field_simps)
    finally show ?thesis by (simp only: rl p_def)
  next
    case False
    then have rl: "rate_limit xs m w = w"
      by (simp add: rate_limit_def Let_def p_def dd_def)
    have "\<bar>dd - (w - p)\<bar> \<le> \<bar>w - p\<bar> / 2 ^ 53"
      unfolding dd_def by (rule round_double_close)
    moreover have "\<bar>w - p\<bar> \<le> \<bar>dd - (w - p)\<bar> + \<bar>dd\<bar>" by linarith
    ultimately have "\<bar>w - p\<bar> \<le> \<bar>w - p\<bar> / 2 ^ 53 + m" using False by linarith
    then have "\<bar>w - p\<bar> \<le> m + 2 * m / 2 ^ 53" using assms(1) by simp
    also have "\<dots> \<le> m + (\<bar>p\<bar> + 3 * m) / 2 ^ 53"
      using assms(1) by (simp add: field_simps)
    finally show ?thesis by (simp only: rl p_def)
  qed
qed

lemma track_within_rounded:
  assumes "track d fr bx c shown = (d', r)"
    and "0 \<le> max_speed_change d" and "within_rounded (max_speed_change d) (prev_speeds d)"
  shows "max_speed_change d' = max_speed_change d \<and>
         within_rounded (max_speed_change d) (prev_speeds d')"
  using assms(1)
proof (cases rule: track_cases)
  case short
  with assms(3) show ?thesis by simp
next
  case (raised e)
  with assms(3) show ?thesis by simp
next
  case (speed vs v)
  have "prev_speeds d = [] \<or>
      \<bar>v - last (prev_speeds d)\<bar> \<le>
        max_speed_change d + (\<bar>last (prev_speeds d)\<bar> + 3 * max_speed_change d) / 2 ^ 53"
    using rate_limit_bound [OF assms(2)] speed(3) by blast
  with assms(3) have "within_rounded (max_speed_change d)
      (push_window (speed_window d) (prev_speeds d) v)"
    by (rule within_rounded_push)
  with speed(4) show ?thesis by simp
qed

lemma process_frame_within_rounded:
  assumes "process_frame d fr contours = (d', r)"
    and "0 \<le> max_speed_change d" and "within_rounded (max_speed_change d) (prev_speeds d)"
  shows "max_speed_change d' = max_speed_change d \<and>
         within_rounded (max_speed_change d) (prev_speeds d')"
  using assms(1)
proof (cases rule: process_frame_cases)
  case raised
  with assms(3) show ?thesis by simp
next
  case (unmatched shown)
  with assms(3) show ?thesis by simp
next
  case (tracked bx center shown s)
  have "0 \<le> max_speed_change (set_frame_size d fr)"
    and "within_rounded (max_speed_change (set_frame_size d fr))
           (prev_speeds (set_frame_size d fr))"
    using assms(2,3) by simp_all
  from track_within_rounded [OF tracked(4) this] show ?thesis by simp
qed

lemma step_within_rounded:
  assumes "step d c = Some d'"
    and "0 \<le> max_speed_change d" and "within_rounded (max_speed_change d) (prev_speeds d)"
  shows "max_speed_change d' = max_speed_change d \<and>
         within_rounded (max_speed_change d) (prev_speeds d')"
proof (cases c)
  case (SetVideoInfo w f)
  with assms show ?thesis
    by (auto simp: set_video_info_def split: if_splits)
next
  case (SelectObject event x y)
  with assms show ?thesis
    by (auto simp: select_object_def split: if_splits)
next
  case (ProcessFrame fr contours)
  obtain d1 r where pf: "process_frame d fr contours = (d1, r)"
    by (cases "process_frame d fr contours")
  have "d' = d1"
    using assms(1) ProcessFrame pf by (auto split: sum.splits py_error.splits)
  then show ?thesis
    using process_frame_within_rounded [OF pf assms(2,3)] by simp
qed

lemma run_within_rounded:
  "run d calls = Some d' \<Longrightarrow> 0 \<le> max_speed_change d \<Longrightarrow>
   within_rounded (max_speed_change d) (prev_speeds d) \<Longrightarrow>
   max_speed_change d' = max_speed_change d \<and>
   within_rounded (max_speed_change d) (prev_speeds d')"
proof (induction calls arbitrary: d)
  case Nil
  then show ?case by simp
next
  case (Cons c calls)
  from Cons.prems(1) obtain d1 where s: "step d c = Some d1" and r: "run d1 calls = Some d'"
    by (auto split: option.splits)
  from step_within_rounded [OF s Cons.prems(2,3)]
  have m: "max_speed_change d1 = max_speed_change d"
    and w: "within_rounded (max_speed_change d) (prev_speeds d1)" by simp_all
  have "max_speed_change d' = max_speed_change d1 \<and>
        within_rounded (max_speed_change d1) (prev_speeds d')"
    by (rule Cons.IH [OF r]) (simp_all only: m Cons.prems(2) w)
  then show ?case by (simp only: m)
qed

text \<open>
  C3, as the code has it. When \<^verbatim>\<open>process_frame\<close> returns a speed, that speed is the weighted
  speed of the position history if there is no previous speed; otherwise, if the double
  difference between the weighted speed and the last recorded speed is larger in absolute
  value than \<^verbatim>\<open>max_speed_change\<close>, it is the double sum of the last recorded speed and
  \<^verbatim>\<open>max_speed_change\<close> times the sign of that difference, and else the weighted speed
  unchanged. The new speed history is the old one with the returned speed appended and,
  if that is longer than \<^verbatim>\<open>speed_window\<close>, without its oldest entry. The sum is rounded, so
  the returned speed differs from the last recorded speed \<open>p\<close> by at most
  \<open>max_speed_change + (\<bar>p\<bar> + 3 * max_speed_change) / 2 ^ 53\<close>, and after every history of
  calls on a fresh detector neighbouring entries of the speed history differ by at most
  that, with \<^verbatim>\<open>max_speed_change\<close> = 10.
\<close>

theorem rate_limit_applied:
  "(process_frame d fr contours = (d', Inr out) \<and> speed_kmh out = Some v \<longrightarrow>
      (\<exists>vs. pair_speeds d fr (prev_centers d') = Inr vs \<and>
         v = (if prev_speeds d = [] then weighted_speed vs
              else if max_speed_change d <
                        \<bar>round_double (weighted_speed vs - last (prev_speeds d))\<bar>
                   then round_double (last (prev_speeds d) +
                          round_double (max_speed_change d *
                            sgn (round_double (weighted_speed vs - last (prev_speeds d)))))
                   else weighted_speed vs)) \<and>
      prev_speeds d' =
        (if speed_window d < int (length (prev_speeds d @ [v]))
         then tl (prev_speeds d @ [v]) else prev_speeds d @ [v])) \<and>
   (process_frame d fr contours = (d', Inr out) \<and> speed_kmh out = Some v \<and>
    prev_speeds d \<noteq> [] \<and> 0 \<le> max_speed_change d \<longrightarrow>
      \<bar>v - last (prev_speeds d)\<bar> \<le>
        max_speed_change d + (\<bar>last (prev_speeds d)\<bar> + 3 * max_speed_change d) / 2 ^ 53) \<and>
   (run (VehicleSpeedDetector_init k) calls = Some d'' \<longrightarrow>
      max_speed_change d'' = 10 \<and> within_rounded 10 (prev_speeds d''))"
proof (intro conjI impI)
  assume a: "process_frame d fr contours = (d', Inr out) \<and> speed_kmh out = Some v"
  then have pf: "process_frame d fr contours = (d', Inr out)"
    and sp: "speed_kmh out = Some v" by simp_all
  from pf sp have "\<exists>vs. pair_speeds d fr (prev_centers d') = Inr vs \<and>
      v = rate_limit (prev_speeds d) (max_speed_change d) (weighted_speed vs) \<and>
      prev_speeds d' = push_window (speed_window d) (prev_speeds d) v"
    by (rule process_frame_speed) blast
  then obtain vs where ps: "pair_speeds d fr (prev_centers d') = Inr vs"
    and v: "v = rate_limit (prev_speeds d) (max_speed_change d) (weighted_speed vs)"
    and hist: "prev_speeds d' = push_window (speed_window d) (prev_speeds d) v"
    by blast
  have "v = (if prev_speeds d = [] then weighted_speed vs
              else if max_speed_change d <
                        \<bar>round_double (weighted_speed vs - last (prev_speeds d))\<bar>
                   then round_double (last (prev_speeds d) +
                          round_double (max_speed_change d *
                            sgn (round_double (weighted_speed vs - last (prev_speeds d)))))
                   else weighted_speed vs)"
    by (subst v) (simp add: rate_limit_def Let_def)
  with ps show "\<exists>vs. pair_speeds d fr (prev_centers d') = Inr vs \<and>
         v = (if prev_speeds d = [] then weighted_speed vs
              else if max_speed_change d <
                        \<bar>round_double (weighted_speed vs - last (prev_speeds d))\<bar>
                   then round_double (last (prev_speeds d) +
                          round_double (max_speed_change d *
                            sgn (round_double (weighted_speed vs - last (prev_speeds d)))))
                   else weighted_speed vs)"
    by blast
  show "prev_speeds d' =
        (if speed_window d < int (length (prev_speeds d @ [v]))
         then tl (prev_speeds d @ [v]) else prev_speeds d @ [v])"
    by (simp only: hist push_window_def Let_def)
next
  assume a: "process_frame d fr contours = (d', Inr out) \<and> speed_kmh out = Some v \<and>
    prev_speeds d \<noteq> [] \<and> 0 \<le> max_speed_change d"
  then have pf: "process_frame d fr contours = (d', Inr out)"
    and sp: "speed_kmh out = Some v" and ne: "prev_speeds d \<noteq> []"
    and m: "0 \<le> max_speed_change d" by simp_all
  from pf sp have "\<exists>vs. v = rate_limit (prev_speeds d) (max_speed_change d) (weighted_speed vs)"
    by (rule process_frame_speed) blast
  then obtain vs where v: "v = rate_limit (prev_speeds d) (max_speed_change d) (weighted_speed vs)"
    by blast
  show "\<bar>v - last (prev_speeds d)\<bar> \<le>
        max_speed_change d + (\<bar>last (prev_speeds d)\<bar> + 3 * max_speed_change d) / 2 ^ 53"
    unfolding v using m ne by (rule rate_limit_bound)
next
  assume r: "run (VehicleSpeedDetector_init k) calls = Some d''"
  have "max_speed_change d'' = max_speed_change (VehicleSpeedDetector_init k) \<and>
      within_rounded (max_speed_change (VehicleSpeedDetector_init k)) (prev_speeds d'')"
    using r by (rule run_within_rounded) (simp_all add: VehicleSpeedDetector_init_def)
  then show "max_speed_change d'' = 10" and "within_rounded 10 (prev_speeds d'')"
    by (simp_all add: VehicleSpeedDetector_init_def)
qed

lemma run_snoc:
  "run d cs = Some d1 \<Longrightarrow> step d1 c = Some d2 \<Longrightarrow> run d (cs @ [c]) = Some d2"
  by (induction cs arbitrary: d) (auto split: option.splits)

lemma run_jump:
  "run (VehicleSpeedDetector_init 10) (calls0 @ [ProcessFrame frame_720p [blob_at 100]]) =
     Some tracking1"
  using run_calls0 by (rule run_snoc) (simp add: process_frame_jump)

lemma pair_speeds_fast:
  "pair_speeds window_full frame_720p (prev_centers window_fast) =
     Inr [27 / 2, 27 / 2, 27 / 2, 297 / 2]"
  by (simp add: window_fast_def pair_speed_def perspective_factor_def window_full_def
      frame_720p_def sqrt_100 sqrt_12100)

lemma weighted_speed_fast: "weighted_speed [27 / 2, 27 / 2, 27 / 2, 297 / 2] = 117 / 2"
  by (simp add: weighted_speed_def average_def linspace_def upt_rec)

lemma sqrt_52900: "sqrt 52900 = 230"
  by (rule real_sqrt_unique) simp_all

lemma round_double_tie:
  "round_double (9977219896246843 / 140737488355328) = 2494304974061711 / 35184372088832"
proof -
  have "round_double (9977219896246843 / 140737488355328) =
      of_int (round_half_even (9977219896246843 / 140737488355328 * 2 ^ (52 - 6))) / 2 ^ (52 - 6)"
    by (rule round_double_eval) simp_all
  also have "(9977219896246843 / 140737488355328 :: real) * 2 ^ (52 - 6) = 9977219896246843 / 2"
    by simp
  also have "round_half_even (9977219896246843 / 2) = 4988609948123422"
    by (simp add: round_half_even_def)
  finally show ?thesis by simp
qed

lemma rate_limit_tie:
  "rate_limit [4284922506346781 / 70368744177664, 8569845012693563 / 140737488355328] 10
     (291 / 2) = 2494304974061711 / 35184372088832"
proof -
  have "(2::real) ^ 6 \<le> 291 / 2 - 8569845012693563 / 140737488355328" by simp
  then have "2 ^ 6 \<le> round_double (291 / 2 - 8569845012693563 / 140737488355328)"
    by (rule round_double_ge_pow2)
  then have big: "10 < round_double (291 / 2 - 8569845012693563 / 140737488355328)" by simp
  then have s: "sgn (round_double (291 / 2 - 8569845012693563 / 140737488355328)) = 1" by simp
  have a: "(8569845012693563 / 140737488355328 :: real) + 10 =
      9977219896246843 / 140737488355328" by simp
  from big show ?thesis
    by (simp add: rate_limit_def Let_def s round_double_10 a round_double_tie)
qed

lemma pair_speeds_tie:
  "pair_speeds near_tie frame_720p (prev_centers tie_next) = Inr [27 / 2, 27 / 2, 621 / 2]"
  by (simp add: tie_next_def near_tie_def pair_speed_def perspective_factor_def window_full_def
      frame_720p_def sqrt_100 sqrt_52900)

lemma weighted_speed_tie: "weighted_speed [27 / 2, 27 / 2, 621 / 2] = 291 / 2"
  by (simp add: weighted_speed_def average_def linspace_def upt_rec)

lemma median_tie:
  "median [4284922506346781 / 70368744177664, 8569845012693563 / 140737488355328,
           2494304974061711 / 35184372088832] = Some (8569845012693563 / 140737488355328)"
  by (simp add: median_def)

lemma process_frame_tie:
  "process_frame near_tie frame_720p [blob_at 250] = (tie_next, Inr tie_result)"
proof -
  have fs: "set_frame_size near_tie frame_720p = near_tie"
    by (simp add: set_frame_size_def frame_720p_def)
  have sc: "scan_contours near_tie (largest_contours [blob_at 250]) scan_init =
     Inr \<lparr>closest_contour = Some ((250, 345, 40, 30), (270, 360)),
          min_dist = Some 630, drawn = []\<rparr>"
    by (simp add: largest_contours_def blob_at_def scan_init_def near_tie_def window_full_def)
  have tr: "track near_tie frame_720p (250, 345, 40, 30) (270, 360) [] =
     (near_tie\<lparr>prev_centers := prev_centers tie_next, prev_speeds := prev_speeds tie_next,
               prev_center := Some (270, 360)\<rparr>,
      Inr \<lparr>annotations =
             (if show_speed near_tie
              then [] @ [TrackedBox (250, 345, 40, 30), TrackingText] @
                   [SpeedLabel (median (prev_speeds tie_next))]
              else [] @ [TrackedBox (250, 345, 40, 30), TrackingText]),
           speed_kmh = Some (2494304974061711 / 35184372088832)\<rparr>)"
  proof (rule track_speedI)
    show "prev_centers tie_next =
        push_window (speed_window near_tie) (prev_centers near_tie) (270, 360)"
      by (simp add: push_window_def tie_next_def near_tie_def window_full_def)
    show "1 < length (prev_centers tie_next)" by (simp add: tie_next_def)
    show "pair_speeds near_tie frame_720p (prev_centers tie_next) =
        Inr [27 / 2, 27 / 2, 621 / 2]"
      by (rule pair_speeds_tie)
    show "2494304974061711 / 35184372088832 =
        rate_limit (prev_speeds near_tie) (max_speed_change near_tie)
          (weighted_speed [27 / 2, 27 / 2, 621 / 2])"
      unfolding weighted_speed_tie
      by (simp add: near_tie_def window_full_def rate_limit_tie)
    show "prev_speeds tie_next =
        push_window (speed_window near_tie) (prev_speeds near_tie)
          (2494304974061711 / 35184372088832)"
      by (simp add: push_window_def tie_next_def near_tie_def window_full_def)
  qed
  have sel: "object_selected near_tie" "show_speed near_tie"
    by (simp_all add: near_tie_def window_full_def)
  have pt: "prev_speeds tie_next =
      [4284922506346781 / 70368744177664, 8569845012693563 / 140737488355328,
       2494304974061711 / 35184372088832]"
    by (simp add: tie_next_def)
  show ?thesis
    unfolding process_frame_unfold fs sc
    by (simp add: tr sel pt median_tie tie_next_def tie_result_def)
qed

text \<open>
  The theorem on the full window: the weighted speed 58.5 is 45 above the last recorded
  speed 13.5, the returned speed is 13.5 + 10 = 23.5 (a sum that is exact), and the speed
  history goes from \<open>[9, 10, 11, 12, 13.5]\<close> to \<open>[10, 11, 12, 13.5, 23.5]\<close>. The last part on
  the concrete session followed by the frame of the jump.
\<close>

theorem rate_limit_applied_witness:
  "process_frame window_full frame_720p [blob_at 150] = (window_fast, Inr fast_result) \<and>
   speed_kmh fast_result = Some (47 / 2) \<and>
   prev_speeds window_full \<noteq> [] \<and> 0 \<le> max_speed_change window_full \<and>
   pair_speeds window_full frame_720p (prev_centers window_fast) =
     Inr [27 / 2, 27 / 2, 27 / 2, 297 / 2] \<and>
   weighted_speed [27 / 2, 27 / 2, 27 / 2, 297 / 2] = 117 / 2 \<and>
   last (prev_speeds window_full) = 27 / 2 \<and> max_speed_change window_full = 10 \<and>
   47 / 2 =
     (if prev_speeds window_full = [] then weighted_speed [27 / 2, 27 / 2, 27 / 2, 297 / 2]
      else if max_speed_change window_full <
                \<bar>round_double (weighted_speed [27 / 2, 27 / 2, 27 / 2, 297 / 2] -
                                last (prev_speeds window_full))\<bar>
           then round_double (last (prev_speeds window_full) +
                  round_double (max_speed_change window_full *
                    sgn (round_double (weighted_speed [27 / 2, 27 / 2, 27 / 2, 297 / 2] -
                                       last (prev_speeds window_full)))))
           else weighted_speed [27 / 2, 27 / 2, 27 / 2, 297 / 2]) \<and>
   (47 / 2 :: real) = 27 / 2 + 10 * sgn (117 / 2 - 27 / 2) \<and>
   prev_speeds window_fast =
     (if speed_window window_full < int (length (prev_speeds window_full @ [47 / 2]))
      then tl (prev_speeds window_full @ [47 / 2]) else prev_speeds window_full @ [47 / 2]) \<and>
   prev_speeds window_full = [9, 10, 11, 12, 27 / 2] \<and>
   prev_speeds window_fast = [10, 11, 12, 27 / 2, 47 / 2] \<and>
   \<bar>47 / 2 - last (prev_speeds window_full)\<bar> \<le>
     max_speed_change window_full +
     (\<bar>last (prev_speeds window_full)\<bar> + 3 * max_speed_change window_full) / 2 ^ 53 \<and>
   run (VehicleSpeedDetector_init 10) (calls0 @ [ProcessFrame frame_720p [blob_at 100]]) =
     Some tracking1 \<and>
   max_speed_change tracking1 = 10 \<and> within_rounded 10 (prev_speeds tracking1)"
proof -
  note inst = rate_limit_applied [of window_full frame_720p "[blob_at 150]" window_fast
      fast_result "47 / 2" 10 "calls0 @ [ProcessFrame frame_720p [blob_at 100]]" tracking1]
  have pf: "process_frame window_full frame_720p [blob_at 150] = (window_fast, Inr fast_result)"
    using process_frame_fast by (simp add: window_fast_def fast_result_def)
  have sp: "speed_kmh fast_result = Some (47 / 2)" by (simp add: fast_result_def)
  have ne: "prev_speeds window_full \<noteq> []" by (simp add: window_full_def)
  have mx: "0 \<le> max_speed_change window_full" by (simp add: window_full_def)
  have h1: "process_frame window_full frame_720p [blob_at 150] =
      (window_fast, Inr fast_result) \<and> speed_kmh fast_result = Some (47 / 2)"
    using pf sp by (rule conjI)
  have h2: "process_frame window_full frame_720p [blob_at 150] =
      (window_fast, Inr fast_result) \<and> speed_kmh fast_result = Some (47 / 2) \<and>
      prev_speeds window_full \<noteq> [] \<and> 0 \<le> max_speed_change window_full"
    using pf sp ne mx by (intro conjI)
  note c1 = inst [THEN conjunct1, THEN mp, OF h1]
  from c1 obtain vs where
    ps: "pair_speeds window_full frame_720p (prev_centers window_fast) = Inr vs" and
    f: "47 / 2 =
     (if prev_speeds window_full = [] then weighted_speed vs
      else if max_speed_change window_full <
                \<bar>round_double (weighted_speed vs - last (prev_speeds window_full))\<bar>
           then round_double (last (prev_speeds window_full) +
                  round_double (max_speed_change window_full *
                    sgn (round_double (weighted_speed vs - last (prev_speeds window_full)))))
           else weighted_speed vs)"
    by blast
  have vs: "vs = [27 / 2, 27 / 2, 27 / 2, 297 / 2]"
    using ps by (simp only: pair_speeds_fast sum.inject)
  note f1 = f [unfolded vs]
  note hist = c1 [THEN conjunct2]
  note c2 = inst [THEN conjunct2, THEN conjunct1, THEN mp, OF h2]
  note c3 = inst [THEN conjunct2, THEN conjunct2, THEN mp, OF run_jump]
  have l: "last (prev_speeds window_full) = 27 / 2" by (simp add: window_full_def)
  have m: "max_speed_change window_full = 10" by (simp add: window_full_def)
  have e: "(47 / 2 :: real) = 27 / 2 + 10 * sgn (117 / 2 - 27 / 2)" by simp
  have o: "prev_speeds window_full = [9, 10, 11, 12, 27 / 2]" by (simp add: window_full_def)
  have n: "prev_speeds window_fast = [10, 11, 12, 27 / 2, 47 / 2]"
    by (simp add: window_fast_def)
  from pf sp ne mx pair_speeds_fast weighted_speed_fast l m f1 e hist o n c2 run_jump c3
  show ?thesis
    by (elim conjE, intro conjI) assumption+
qed

text \<open>
  C3 as the specification states it fails by the rounding of the sum. With the last
  recorded speed \<open>p = 8569845012693563 / 2 ^ 47\<close> (the double \<open>60.89241120359335\<close>) and a
  weighted speed of 145.5, the sum \<open>p + 10\<close> lies halfway between two doubles and is rounded
  up: the speed appended is \<open>p + 10 + 1 / 2 ^ 47\<close>, which is not \<open>p + 10\<close>, and the last two
  entries of the speed history differ by more than \<^verbatim>\<open>max_speed_change\<close>.
\<close>

theorem rate_limit_exceeds_change:
  "process_frame near_tie frame_720p [blob_at 250] = (tie_next, Inr tie_result) \<and>
   speed_kmh tie_result = Some (2494304974061711 / 35184372088832) \<and>
   max_speed_change near_tie = 10 \<and>
   prev_speeds near_tie =
     [4284922506346781 / 70368744177664, 8569845012693563 / 140737488355328] \<and>
   pair_speeds near_tie frame_720p (prev_centers tie_next) = Inr [27 / 2, 27 / 2, 621 / 2] \<and>
   weighted_speed [27 / 2, 27 / 2, 621 / 2] = 291 / 2 \<and>
   prev_speeds tie_next =
     [4284922506346781 / 70368744177664, 8569845012693563 / 140737488355328,
      2494304974061711 / 35184372088832] \<and>
   (2494304974061711 / 35184372088832 :: real) \<noteq>
     8569845012693563 / 140737488355328 +
     10 * sgn (291 / 2 - 8569845012693563 / 140737488355328) \<and>
   (2494304974061711 / 35184372088832 :: real) - 8569845012693563 / 140737488355328 =
     10 + 1 / 2 ^ 47 \<and>
   \<not> within_change (max_speed_change tie_next) (prev_speeds tie_next)"
proof -
  have s: "speed_kmh tie_result = Some (2494304974061711 / 35184372088832)"
    by (simp add: tie_result_def)
  have m: "max_speed_change near_tie = 10" by (simp add: near_tie_def window_full_def)
  have p: "prev_speeds near_tie =
     [4284922506346781 / 70368744177664, 8569845012693563 / 140737488355328]"
    by (simp add: near_tie_def)
  have q: "prev_speeds tie_next =
     [4284922506346781 / 70368744177664, 8569845012693563 / 140737488355328,
      2494304974061711 / 35184372088832]"
    by (simp add: tie_next_def)
  have n: "(2494304974061711 / 35184372088832 :: real) \<noteq>
     8569845012693563 / 140737488355328 +
     10 * sgn (291 / 2 - 8569845012693563 / 140737488355328)"
    by simp
  have e: "(2494304974061711 / 35184372088832 :: real) - 8569845012693563 / 140737488355328 =
     10 + 1 / 2 ^ 47"
    by simp
  have w: "\<not> within_change (max_speed_change tie_next) (prev_speeds tie_next)"
    by (simp add: tie_next_def near_tie_def window_full_def)
  from process_frame_tie s m p pair_speeds_tie weighted_speed_tie q n e w show ?thesis
    by (intro conjI)
qed

end
